theory Spec2Isabelle
  imports Main "HOL-Library.Word"
begin

section \<open>The AMS connection multiplexer of AdsLib/AmsConnection.cpp\<close>

text \<open>
  A shallow embedding of \<^verbatim>\<open>AdsLib/AmsConnection.cpp\<close>. Pointers into the slot array
  and to dispatchers are indices, \<^verbatim>\<open>nullptr\<close> is \<open>None\<close>, a thrown exception is the
  left injection of a sum, unsigned machine integers are words and \<^verbatim>\<open>size_t\<close> byte
  counts (all below \<open>2 ^ 32\<close> here) are natural numbers.
\<close>

type_synonym byte = "8 word"
type_synonym u16 = "16 word"
type_synonym u32 = "32 word"

subsection \<open>Errors and log lines\<close>

text \<open>
  \<open>runtime_error\<close> is the \<^verbatim>\<open>std::runtime_error\<close> the socket throws and \<^verbatim>\<open>TryRecv\<close>
  catches. \<open>BufferTooSmall\<close> is the failure of \<^verbatim>\<open>Frame::prepend\<close>. \<open>OutOfBounds\<close>
  marks an access to the slot array outside its bounds, where the C++ has undefined
  behaviour (\<^verbatim>\<open>std::array::operator[]\<close> does not check).
\<close>

datatype error = runtime_error | BufferTooSmall | OutOfBounds

text \<open>One constructor for each \<^verbatim>\<open>LOG_WARN\<close> and \<^verbatim>\<open>LOG_INFO\<close> of the file, with the values it prints.\<close>

datatype log_msg =
    InvokeId_missmatch u32 u32
  | Port_already_in_use u16 u32
  | Frame_to_long nat nat
  | No_dispatcher_found
  | Receive_buffer_was_full u16
  | Frame_to_short
  | No_response_pending
  | Unkown_AMS_command_id
  | Info_what error

subsection \<open>Socket\<close>

text \<open>
  Modelled from the spec: the socket wrapper (class \<^verbatim>\<open>Socket\<close>, \<^verbatim>\<open>Sockets.h\<close>) is missing
  from the sources. Section 4.3 gives its contract: blocking \<^verbatim>\<open>read(buf, n)\<close> returning
  the number of bytes read, \<^verbatim>\<open>write(buf)\<close> returning the number of bytes written, and a
  read of 0 bytes (end of stream) or an I/O error ending the reader.

  \<open>rx\<close> is what the peer still delivers, as the segments the transport hands over:
  one \<^verbatim>\<open>read\<close> returns at most the rest of the first segment. No segment left, or an
  empty one, is the end of the stream. \<open>tx\<close> is every byte given to the peer so far.
  \<open>tx_accept\<close> lists, for the coming \<^verbatim>\<open>write\<close> calls, how many bytes the transport
  takes (none when the list is used up).
\<close>

record Socket =
  rx :: "byte list list"
  tx :: "byte list"
  tx_accept :: "nat list"

text \<open>
  Modelled from the spec: \<^verbatim>\<open>Socket::read\<close> (missing). It fills the buffer with at most
  \<open>maxBytes\<close> bytes of the first segment and returns how many; a read of 0 bytes throws.
\<close>

definition socket_read :: "nat \<Rightarrow> Socket \<Rightarrow> error + (byte list \<times> Socket)" where
  "socket_read maxBytes s =
     (case rx s of
        [] \<Rightarrow> Inl runtime_error
      | seg # rest \<Rightarrow>
          (let bytesRead = min maxBytes (length seg)
           in if bytesRead = 0 then Inl runtime_error
              else Inr (take bytesRead seg,
                        s\<lparr>rx := (if bytesRead < length seg then drop bytesRead seg # rest
                                 else rest)\<rparr>)))"

text \<open>
  Modelled from the spec: \<^verbatim>\<open>Socket::write\<close> (missing). It gives the frame's bytes to the
  transport in a single call and returns how many the transport took.
\<close>

definition socket_write :: "byte list \<Rightarrow> Socket \<Rightarrow> nat \<times> Socket" where
  "socket_write bytes s =
     (case tx_accept s of
        [] \<Rightarrow> (0, s)
      | k # ks \<Rightarrow>
          (let n = min k (length bytes)
           in (n, s\<lparr>tx := tx s @ take n bytes, tx_accept := ks\<rparr>)))"

text \<open>
  \<^verbatim>\<open>AmsConnection::Receive(buffer, bytesToRead)\<close>: read until \<^verbatim>\<open>bytesToRead\<close> bytes have
  arrived. The result is the bytes in the order they were put at \<^verbatim>\<open>buffer\<close>; the
  caller of the model stores them where \<^verbatim>\<open>buffer\<close> points.
\<close>

lemma socket_read_progress:
  "socket_read n s = Inr (bs, s') \<Longrightarrow> 0 < length bs \<and> length bs \<le> n"
  by (auto simp: socket_read_def Let_def split: list.splits if_splits)

function Receive :: "nat \<Rightarrow> Socket \<Rightarrow> error + (byte list \<times> Socket)" where
  "Receive bytesToRead s =
     (if bytesToRead = 0 then Inr ([], s)
      else case socket_read bytesToRead s of
             Inl e \<Rightarrow> Inl e
           | Inr (bs, s') \<Rightarrow>
               (case Receive (bytesToRead - length bs) s' of
                  Inl e \<Rightarrow> Inl e
                | Inr (cs, s'') \<Rightarrow> Inr (bs @ cs, s'')))"
  by pat_completeness auto
termination
proof (relation "measure fst", goal_cases)
  case 1
  show ?case by simp
next
  case (2 bytesToRead s x bs s')
  then have "socket_read bytesToRead s = Inr (bs, s')" by simp
  from socket_read_progress [OF this] 2(1) show ?case by simp
qed

declare Receive.simps [simp del]

text \<open>\<^verbatim>\<open>AmsConnection::ReceiveJunk\<close>: drain through a buffer of 1024 bytes.\<close>

function ReceiveJunk :: "nat \<Rightarrow> Socket \<Rightarrow> error + Socket" where
  "ReceiveJunk bytesToRead s =
     (if bytesToRead > 1024
      then (case Receive 1024 s of
              Inl e \<Rightarrow> Inl e
            | Inr (_, s') \<Rightarrow> ReceiveJunk (bytesToRead - 1024) s')
      else (case Receive bytesToRead s of
              Inl e \<Rightarrow> Inl e
            | Inr (_, s') \<Rightarrow> Inr s'))"
  by pat_completeness auto
termination
  by (relation "measure fst") auto

declare ReceiveJunk.simps [simp del]

subsection \<open>Frame\<close>

text \<open>
  Modelled from the spec: class \<^verbatim>\<open>Frame\<close> (\<^verbatim>\<open>Frame.h\<close>) is missing from the sources.
  Sections 3 and 4.1: an owned byte buffer of capacity \<open>C\<close> with a current window
  \<open>[start, end)\<close>, \<open>0 \<le> start \<le> end \<le> C\<close>, built by prepending.
\<close>

record Frame =
  storage :: "byte list"
  start :: nat
  end_pos :: nat

text \<open>
  Modelled from the spec: the constructor \<^verbatim>\<open>Frame(n)\<close> (missing). The buffer is built by
  prepending, so a new frame of capacity \<open>n\<close> has an empty window at its end.
\<close>

definition Frame_new :: "nat \<Rightarrow> Frame" where
  "Frame_new n = \<lparr>storage = replicate n 0, start = n, end_pos = n\<rparr>"

text \<open>Modelled from the spec: \<^verbatim>\<open>Frame::capacity\<close> (missing), the capacity \<open>C\<close>.\<close>

definition capacity :: "Frame \<Rightarrow> nat" where
  "capacity f = length (storage f)"

text \<open>Modelled from the spec: \<^verbatim>\<open>Frame::size\<close> (missing), the length of the window.\<close>

definition size_of_frame :: "Frame \<Rightarrow> nat" where
  "size_of_frame f = end_pos f - start f"

text \<open>Modelled from the spec: the bytes of the window, which are the frame's content.\<close>

definition frame_data :: "Frame \<Rightarrow> byte list" where
  "frame_data f = take (end_pos f - start f) (drop (start f) (storage f))"

text \<open>Writing \<open>bs\<close> into a buffer \<open>mem\<close> from offset \<open>pos\<close> on (a \<^verbatim>\<open>memcpy\<close> within the buffer).\<close>

definition store_at :: "nat \<Rightarrow> byte list \<Rightarrow> byte list \<Rightarrow> byte list" where
  "store_at pos bs mem = take pos mem @ bs @ drop (pos + length bs) mem"

text \<open>
  Modelled from the spec: \<^verbatim>\<open>Frame::prepend\<close> (missing) writes the header bytes at
  \<open>start - sizeof(T)\<close> and moves \<open>start\<close> left; it fails if \<open>start < sizeof(T)\<close>.
\<close>

definition prepend :: "byte list \<Rightarrow> Frame \<Rightarrow> error + Frame" where
  "prepend bs f =
     (if start f < length bs then Inl BufferTooSmall
      else Inr (f\<lparr>storage := store_at (start f - length bs) bs (storage f),
                 start := start f - length bs\<rparr>))"

text \<open>
  Modelled from the spec: \<^verbatim>\<open>Frame::limit\<close> (missing), "sets \<open>end := start + n\<close> (used
  after read)". The read has put its bytes at \<^verbatim>\<open>rawData()\<close>, the first byte of the buffer,
  so the window of \<open>n\<close> bytes starts there.
\<close>

definition limit :: "nat \<Rightarrow> Frame \<Rightarrow> Frame" where
  "limit n f = f\<lparr>start := 0, end_pos := n\<rparr>"

text \<open>Modelled from the spec: \<^verbatim>\<open>Frame::clear\<close> (missing) sets \<open>end := start\<close>.\<close>

definition clear :: "Frame \<Rightarrow> Frame" where
  "clear f = f\<lparr>end_pos := start f\<rparr>"

text \<open>
  Modelled from the spec: \<^verbatim>\<open>Frame::reset\<close> (missing); the spec names it without saying
  more. It is taken to put the frame back as it was constructed: an empty window at the
  end of the buffer.
\<close>

definition reset :: "Frame \<Rightarrow> Frame" where
  "reset f = f\<lparr>start := capacity f, end_pos := capacity f\<rparr>"

text \<open>
  Modelled from the spec: \<^verbatim>\<open>Frame::rawData\<close> (missing) is the buffer itself, from its first
  byte. This is \<^verbatim>\<open>Receive(frame.rawData(), n)\<close> with the bytes \<open>bs\<close> that arrived.
\<close>

definition rawData_store :: "byte list \<Rightarrow> Frame \<Rightarrow> Frame" where
  "rawData_store bs f = f\<lparr>storage := store_at 0 bs (storage f)\<rparr>"

subsection \<open>Wire headers\<close>

text \<open>
  Modelled from the spec: the headers (\<^verbatim>\<open>AmsTcpHeader\<close>, \<^verbatim>\<open>AoEHeader\<close>, \<^verbatim>\<open>AmsAddr\<close> of
  \<^verbatim>\<open>AmsHeader.h\<close>) are missing from the sources. Section 6 gives the layouts,
  little-endian everywhere. \<^verbatim>\<open>AmsTcpHeader\<close>, 6 bytes:
  \<^verbatim>\<open>{ reserved: u16 = 0; length: u32 }\<close>. \<^verbatim>\<open>AoEHeader\<close>, 32 bytes: \<^verbatim>\<open>{ targetNetId: 6;
  targetPort: u16; sourceNetId: 6; sourcePort: u16; cmdId: u16; stateFlags: u16;
  length: u32; errorCode: u32; invokeId: u32 }\<close>, and the command ids 1 to 9. The
  definitions from here to \<open>READ_WRITE\<close> follow that section: the little-endian
  reading and writing of an integer, the sizes of the two headers, their fields read from
  the received bytes, their bytes as they are sent, and the command ids.
\<close>

definition le_word :: "byte list \<Rightarrow> 'a::len word" where
  "le_word bs = word_of_nat (foldr (\<lambda>b acc. unat b + 256 * acc) bs 0)"

definition le_bytes :: "nat \<Rightarrow> nat \<Rightarrow> byte list" where
  "le_bytes n v = map (\<lambda>i. word_of_nat (v div 256 ^ i)) [0..<n]"

type_synonym AmsNetId = "byte list"

definition AmsNetId_bytes :: "AmsNetId \<Rightarrow> byte list" where
  "AmsNetId_bytes b = take 6 (b @ replicate 6 0)"

record AmsAddr =
  netId :: AmsNetId
  port :: u16

type_synonym VirtualConnection = "u16 \<times> AmsAddr"

definition sizeof_AmsTcpHeader :: nat where
  "sizeof_AmsTcpHeader = 6"

definition sizeof_AoEHeader :: nat where
  "sizeof_AoEHeader = 32"

definition AmsTcpHeader_length :: "byte list \<Rightarrow> u32" where
  "AmsTcpHeader_length raw = le_word (take 4 (drop 2 raw))"

definition AmsTcpHeader_bytes :: "u32 \<Rightarrow> byte list" where
  "AmsTcpHeader_bytes len = le_bytes 2 0 @ le_bytes 4 (unat len)"

record AoEHeader =
  targetNetId :: AmsNetId
  targetPort :: u16
  sourceNetId :: AmsNetId
  sourcePort :: u16
  cmdId :: u16
  stateFlags :: u16
  length_hdr :: u32
  errorCode :: u32
  invokeId_hdr :: u32

definition AoEHeader_of_bytes :: "byte list \<Rightarrow> AoEHeader" where
  "AoEHeader_of_bytes raw =
     \<lparr>targetNetId = take 6 raw,
      targetPort = le_word (take 2 (drop 6 raw)),
      sourceNetId = take 6 (drop 8 raw),
      sourcePort = le_word (take 2 (drop 14 raw)),
      cmdId = le_word (take 2 (drop 16 raw)),
      stateFlags = le_word (take 2 (drop 18 raw)),
      length_hdr = le_word (take 4 (drop 20 raw)),
      errorCode = le_word (take 4 (drop 24 raw)),
      invokeId_hdr = le_word (take 4 (drop 28 raw))\<rparr>"

definition AoEHeader_bytes :: "AoEHeader \<Rightarrow> byte list" where
  "AoEHeader_bytes h =
     AmsNetId_bytes (targetNetId h) @ le_bytes 2 (unat (targetPort h)) @
     AmsNetId_bytes (sourceNetId h) @ le_bytes 2 (unat (sourcePort h)) @
     le_bytes 2 (unat (cmdId h)) @ le_bytes 2 (unat (stateFlags h)) @
     le_bytes 4 (unat (length_hdr h)) @ le_bytes 4 (unat (errorCode h)) @
     le_bytes 4 (unat (invokeId_hdr h))"

definition sourceAms :: "AoEHeader \<Rightarrow> AmsAddr" where
  "sourceAms h = \<lparr>netId = sourceNetId h, port = sourcePort h\<rparr>"

definition READ_DEVICE_INFO :: u16 where "READ_DEVICE_INFO = 1"
definition READ :: u16 where "READ = 2"
definition WRITE :: u16 where "WRITE = 3"
definition READ_STATE :: u16 where "READ_STATE = 4"
definition WRITE_CONTROL :: u16 where "WRITE_CONTROL = 5"
definition ADD_DEVICE_NOTIFICATION :: u16 where "ADD_DEVICE_NOTIFICATION = 6"
definition DEL_DEVICE_NOTIFICATION :: u16 where "DEL_DEVICE_NOTIFICATION = 7"
definition DEVICE_NOTIFICATION :: u16 where "DEVICE_NOTIFICATION = 8"
definition READ_WRITE :: u16 where "READ_WRITE = 9"

text \<open>
  Constants and defaults that the file uses and that missing headers declare; the model
  takes them as parameters of the connection. \<open>PORT_BASE\<close> is
  \<^verbatim>\<open>Router::PORT_BASE\<close>. \<open>request_stateFlags\<close> and \<open>request_errorCode\<close> are what the
  seven-argument \<^verbatim>\<open>AoEHeader\<close> constructor puts into the two fields it is not given.
  \<open>ring_size\<close> is the size of the ring a new \<^verbatim>\<open>NotificationDispatcher\<close> is built with.
  (\<^verbatim>\<open>Router::NUM_PORTS_MAX\<close> is the length of the slot array.)
\<close>

record Declared =
  PORT_BASE :: u16
  request_stateFlags :: u16
  request_errorCode :: u32
  ring_size :: nat

text \<open>
  Modelled from the spec: the seven-argument constructor of \<^verbatim>\<open>AoEHeader\<close> (missing), with
  the fields of section 6 in the order \<open>Write\<close> gives them.
\<close>

definition AoEHeader_request ::
  "Declared \<Rightarrow> AmsNetId \<Rightarrow> u16 \<Rightarrow> AmsNetId \<Rightarrow> u16 \<Rightarrow> u16 \<Rightarrow> u32 \<Rightarrow> u32 \<Rightarrow> AoEHeader" where
  "AoEHeader_request d tgtNetId tgtPort srcNetId srcPort cmd len invoke =
     \<lparr>targetNetId = tgtNetId, targetPort = tgtPort, sourceNetId = srcNetId,
      sourcePort = srcPort, cmdId = cmd, stateFlags = request_stateFlags d,
      length_hdr = len, errorCode = request_errorCode d, invokeId_hdr = invoke\<rparr>"

subsection \<open>Ring buffer\<close>

text \<open>
  Modelled from the spec: \<^verbatim>\<open>RingBuffer\<close> (\<^verbatim>\<open>RingBuffer.h\<close>) is missing from the sources.
  Section 4.2: a single-producer single-consumer byte ring with \<^verbatim>\<open>bytesFree()\<close>,
  \<^verbatim>\<open>bytesUsed()\<close>, \<^verbatim>\<open>writeChunk()\<close>, the largest contiguous writable span without
  wrapping, and \<^verbatim>\<open>write(n)\<close>, which advances the write cursor. \<open>write_cur\<close> and
  \<open>read_cur\<close> are the cursors (\<^verbatim>\<open>ring.write\<close> and \<^verbatim>\<open>ring.read\<close>), as offsets into
  \<open>ring_data\<close>.
\<close>

record RingBuffer =
  ring_data :: "byte list"
  write_cur :: nat
  read_cur :: nat

text \<open>
  Modelled from the spec: the constructor of \<^verbatim>\<open>RingBuffer\<close> (missing). A ring for \<open>N\<close>
  bytes has \<open>N + 1\<close> cells, one of which stays unused so that a full ring differs from
  an empty one.
\<close>

definition RingBuffer_new :: "nat \<Rightarrow> RingBuffer" where
  "RingBuffer_new N = \<lparr>ring_data = replicate (N + 1) 0, write_cur = 0, read_cur = 0\<rparr>"

text \<open>Modelled from the spec: \<^verbatim>\<open>RingBuffer::BytesFree\<close> (missing), \<^verbatim>\<open>bytesFree()\<close>.\<close>

definition BytesFree :: "RingBuffer \<Rightarrow> nat" where
  "BytesFree r =
     (if write_cur r < read_cur r then read_cur r - write_cur r - 1
      else length (ring_data r) - 1 - (write_cur r - read_cur r))"

text \<open>Modelled from the spec: \<^verbatim>\<open>bytesUsed()\<close> (missing), the number of unread bytes.\<close>

definition BytesAvailable :: "RingBuffer \<Rightarrow> nat" where
  "BytesAvailable r =
     (if write_cur r < read_cur r then length (ring_data r) - (read_cur r - write_cur r)
      else write_cur r - read_cur r)"

text \<open>
  Modelled from the spec: \<^verbatim>\<open>RingBuffer::WriteChunk\<close> (missing), the largest contiguous
  writable span without wrapping: up to the byte before the read cursor when that lies
  ahead, up to the end of the buffer otherwise.
\<close>

definition WriteChunk :: "RingBuffer \<Rightarrow> nat" where
  "WriteChunk r =
     (if write_cur r < read_cur r then read_cur r - write_cur r - 1
      else length (ring_data r) - write_cur r)"

text \<open>
  Modelled from the spec: \<^verbatim>\<open>RingBuffer::Write\<close> (missing) advances the write cursor, around
  the end of the buffer.
\<close>

definition ring_Write :: "nat \<Rightarrow> RingBuffer \<Rightarrow> RingBuffer" where
  "ring_Write n r = r\<lparr>write_cur := (write_cur r + n) mod length (ring_data r)\<rparr>"

text \<open>\<^verbatim>\<open>Receive(ring.write, n)\<close> with the bytes \<open>bs\<close> that arrived.\<close>

definition ring_store :: "byte list \<Rightarrow> RingBuffer \<Rightarrow> RingBuffer" where
  "ring_store bs r = r\<lparr>ring_data := store_at (write_cur r) bs (ring_data r)\<rparr>"

text \<open>The unread bytes of the ring, oldest first: what the consumer is still to read.\<close>

definition ring_contents :: "RingBuffer \<Rightarrow> byte list" where
  "ring_contents r =
     map (\<lambda>i. ring_data r ! ((read_cur r + i) mod length (ring_data r))) [0..<BytesAvailable r]"

subsection \<open>Response slots\<close>

text \<open>
  \<^verbatim>\<open>AmsResponse\<close>: the frame and the atomic \<^verbatim>\<open>invokeId\<close>. \<open>notified\<close> counts the calls of
  \<^verbatim>\<open>cv.notify_all()\<close>. The constructor gives the frame 4096 bytes.
\<close>

record AmsResponse =
  frame :: Frame
  invokeId :: u32
  notified :: nat

definition AmsResponse_new :: AmsResponse where
  "AmsResponse_new = \<lparr>frame = Frame_new 4096, invokeId = 0, notified = 0\<rparr>"

definition Notify :: "AmsResponse \<Rightarrow> AmsResponse" where
  "Notify r = r\<lparr>invokeId := 0, notified := notified r + 1\<rparr>"

text \<open>
  \<^verbatim>\<open>AmsResponse::Wait\<close> returns what the predicate \<^verbatim>\<open>!invokeId\<close> is when \<^verbatim>\<open>wait_for\<close>
  comes back: true once the slot was notified or released, false when the timeout
  passed with the slot still reserved. The model reads the predicate in the state the
  reader has left.
\<close>

definition Wait :: "AmsResponse \<Rightarrow> bool" where
  "Wait r = (invokeId r = 0)"

subsection \<open>Notification dispatchers\<close>

text \<open>
  Modelled from the spec: \<^verbatim>\<open>NotificationDispatcher\<close> (\<^verbatim>\<open>NotificationDispatcher.h\<close>) is
  missing from the sources. Sections 3 and 4.5: a dispatcher has its local port, the
  remote address, a ring and the subscriptions by \<open>hNotify\<close>; \<^verbatim>\<open>emplace\<close> registers a
  subscription and \<^verbatim>\<open>notify()\<close> signals the worker. \<open>woken\<close> counts those signals.
\<close>

record Subscription =
  callback :: nat
  hUser :: u32
  length_sub :: u32
  hNotify :: u32

record NotificationDispatcher =
  conn_port :: u16
  amsAddr :: AmsAddr
  ring :: RingBuffer
  notifications :: "u32 \<rightharpoonup> Subscription"
  woken :: nat

text \<open>
  Modelled from the spec: the constructor of \<^verbatim>\<open>NotificationDispatcher\<close> (missing), called
  with the proxy, the remote address and the local port; no subscriptions yet.
\<close>

definition NotificationDispatcher_new :: "nat \<Rightarrow> AmsAddr \<Rightarrow> u16 \<Rightarrow> NotificationDispatcher" where
  "NotificationDispatcher_new N addr p =
     \<lparr>conn_port = p, amsAddr = addr, ring = RingBuffer_new N, notifications = Map.empty,
      woken = 0\<rparr>"

text \<open>\<^verbatim>\<open>std::map::emplace\<close>: nothing is stored when the key is there already.\<close>

definition map_emplace :: "'k \<Rightarrow> 'v \<Rightarrow> ('k \<rightharpoonup> 'v) \<Rightarrow> 'v \<times> ('k \<rightharpoonup> 'v)" where
  "map_emplace k v m = (case m k of Some v' \<Rightarrow> (v', m) | None \<Rightarrow> (v, m(k \<mapsto> v)))"

text \<open>
  Modelled from the spec: \<^verbatim>\<open>NotificationDispatcher::Emplace\<close> (missing) registers a
  subscription under its \<open>hNotify\<close>.
\<close>

definition Emplace :: "nat \<Rightarrow> u32 \<Rightarrow> u32 \<Rightarrow> u32 \<Rightarrow> NotificationDispatcher \<Rightarrow> NotificationDispatcher" where
  "Emplace pFunc user len h d =
     d\<lparr>notifications :=
          snd (map_emplace h \<lparr>callback = pFunc, hUser = user, length_sub = len, hNotify = h\<rparr>
                 (notifications d))\<rparr>"

text \<open>
  Modelled from the spec: \<^verbatim>\<open>NotificationDispatcher::Notify\<close> (missing) signals the worker
  that new bytes arrived.
\<close>

definition Dispatcher_Notify :: "NotificationDispatcher \<Rightarrow> NotificationDispatcher" where
  "Dispatcher_Notify d = d\<lparr>woken := woken d + 1\<rparr>"

text \<open>
  \<^verbatim>\<open>AmsConnection::DispatcherList\<close>: the map from virtual connections to shared pointers
  and its recursive mutex. A shared pointer is the index of the dispatcher among the
  dispatchers allocated so far (the connection's \<open>dispatchers\<close>), and an empty
  shared pointer is \<open>None\<close>. \<open>held\<close> is how often the calling thread holds the mutex;
  \<open>trace\<close> records each lock, unlock, lookup and insertion, the last two with the value
  of \<open>held\<close> at that moment.
\<close>

datatype dl_event =
    Lock
  | Unlock
  | Find VirtualConnection nat
  | Emplaced VirtualConnection nat

record DispatcherList =
  list_map :: "VirtualConnection \<rightharpoonup> nat"
  held :: nat
  trace :: "dl_event list"

definition lock_guard :: "DispatcherList \<Rightarrow> DispatcherList" where
  "lock_guard dl = dl\<lparr>held := held dl + 1, trace := trace dl @ [Lock]\<rparr>"

definition unlock_guard :: "DispatcherList \<Rightarrow> DispatcherList" where
  "unlock_guard dl = dl\<lparr>held := held dl - 1, trace := trace dl @ [Unlock]\<rparr>"

definition Get :: "VirtualConnection \<Rightarrow> DispatcherList \<Rightarrow> nat option \<times> DispatcherList" where
  "Get connection dl =
     (let dl1 = lock_guard dl;
          dl2 = dl1\<lparr>trace := trace dl1 @ [Find connection (held dl1)]\<rparr>
      in (list_map dl2 connection, unlock_guard dl2))"

subsection \<open>The connection\<close>

text \<open>
  \<open>cas_spurious\<close> lists, for the coming calls of \<^verbatim>\<open>compare_exchange_weak\<close>, whether the
  call fails spuriously. C++ allows that of the weak form: "a weak compare-and-exchange
  operation may fail spuriously. That is, even when the contents of memory referred to
  by expected and ptr are equal, it may return false and store back to expected the same
  memory contents that were originally there." It happens on targets that build the
  operation from load-linked and store-conditional instructions (ARM, POWER, RISC-V) and
  not on x86. No entry left means no spurious failure.
\<close>

record AmsConnection =
  socket :: Socket
  invokeId_counter :: u32
  queue :: "AmsResponse list"
  dispatcherList :: DispatcherList
  dispatchers :: "NotificationDispatcher list"
  log :: "log_msg list"
  cas_spurious :: "bool list"
  declared :: Declared

definition LOG :: "log_msg \<Rightarrow> AmsConnection \<Rightarrow> AmsConnection" where
  "LOG m c = c\<lparr>log := log c @ [m]\<rparr>"

text \<open>
  \<^verbatim>\<open>DispatcherList::Add\<close>. The lock of \<open>Add\<close> is taken before \<^verbatim>\<open>make_shared\<close> builds the
  new dispatcher; the dispatcher is built whether or not \<^verbatim>\<open>emplace\<close> then stores it.
\<close>

definition Add :: "VirtualConnection \<Rightarrow> AmsConnection \<Rightarrow> nat \<times> AmsConnection" where
  "Add connection c =
     (let (dispatcher, dl1) = Get connection (dispatcherList c)
      in case dispatcher of
           Some p \<Rightarrow> (p, c\<lparr>dispatcherList := dl1\<rparr>)
         | None \<Rightarrow>
             (let dl2 = lock_guard dl1;
                  fresh = length (dispatchers c);
                  made = NotificationDispatcher_new (ring_size (declared c)) (snd connection)
                           (fst connection);
                  (p, m) = map_emplace connection fresh (list_map dl2);
                  dl3 = dl2\<lparr>list_map := m, trace := trace dl2 @ [Emplaced connection (held dl2)]\<rparr>
              in (p, c\<lparr>dispatcherList := unlock_guard dl3,
                       dispatchers := dispatchers c @ [made]\<rparr>)))"

text \<open>\<^verbatim>\<open>AmsConnection::CreateNotifyMapping\<close>; the \<^verbatim>\<open>NotificationId\<close> is \<open>(hNotify, dispatcher)\<close>.\<close>

definition CreateNotifyMapping ::
  "u16 \<Rightarrow> AmsAddr \<Rightarrow> nat \<Rightarrow> u32 \<Rightarrow> u32 \<Rightarrow> u32 \<Rightarrow> AmsConnection \<Rightarrow> (u32 \<times> nat) \<times> AmsConnection" where
  "CreateNotifyMapping p addr pFunc user len h c =
     (let (dispatcher, c1) = Add (p, addr) c;
          c2 = c1\<lparr>dispatchers :=
                   (dispatchers c1)[dispatcher := Emplace pFunc user len h (dispatchers c1 ! dispatcher)]\<rparr>
      in ((h, dispatcher), c2))"

text \<open>
  \<^verbatim>\<open>AmsConnection::GetInvokeId\<close>:
  \<^verbatim>\<open>do { result = invokeId.fetch_add(1); } while (!result);\<close>
\<close>

function GetInvokeId :: "AmsConnection \<Rightarrow> u32 \<times> AmsConnection" where
  "GetInvokeId c =
     (let result = invokeId_counter c;
          c' = c\<lparr>invokeId_counter := invokeId_counter c + 1\<rparr>
      in if result = 0 then GetInvokeId c' else (result, c'))"
  by pat_completeness auto
termination
  by (relation "measure (\<lambda>c. if invokeId_counter c = 0 then 1 else 0)") auto

declare GetInvokeId.simps [simp del]

text \<open>
  The slot \<^verbatim>\<open>queue[port - Router::PORT_BASE]\<close>. Both operands are promoted to \<^verbatim>\<open>int\<close>, so
  the difference is negative for a port below \<open>PORT_BASE\<close>. \<open>None\<close> when the index is
  outside the array.
\<close>

definition slot_index :: "u16 \<Rightarrow> AmsConnection \<Rightarrow> nat option" where
  "slot_index p c =
     (let d = int (unat p) - int (unat (PORT_BASE (declared c)))
      in if 0 \<le> d \<and> d < int (length (queue c)) then Some (nat d) else None)"

text \<open>\<^verbatim>\<open>AmsConnection::GetPending\<close>.\<close>

definition GetPending :: "u32 \<Rightarrow> u16 \<Rightarrow> AmsConnection \<Rightarrow> error + (nat option \<times> AmsConnection)" where
  "GetPending id' p c =
     (case slot_index p c of
        None \<Rightarrow> Inl OutOfBounds
      | Some i \<Rightarrow>
          (let currentId = invokeId (queue c ! i)
           in if currentId = id' then Inr (Some i, c)
              else Inr (None, LOG (InvokeId_missmatch currentId id') c)))"

text \<open>
  \<^verbatim>\<open>compare_exchange_weak(expected, desired)\<close> on a slot's \<^verbatim>\<open>invokeId\<close>: the result, what
  \<^verbatim>\<open>expected\<close> holds afterwards, and the slot.
\<close>

definition compare_exchange_weak ::
  "bool \<Rightarrow> u32 \<Rightarrow> u32 \<Rightarrow> AmsResponse \<Rightarrow> bool \<times> u32 \<times> AmsResponse" where
  "compare_exchange_weak spurious expected desired r =
     (if invokeId r = expected \<and> \<not> spurious then (True, expected, r\<lparr>invokeId := desired\<rparr>)
      else (False, invokeId r, r))"

text \<open>Whether the coming \<^verbatim>\<open>compare_exchange_weak\<close> fails spuriously.\<close>

definition spurious :: "AmsConnection \<Rightarrow> bool" where
  "spurious c = (case cas_spurious c of [] \<Rightarrow> False | b # _ \<Rightarrow> b)"

text \<open>\<^verbatim>\<open>AmsConnection::Reserve\<close>.\<close>

definition Reserve :: "u32 \<Rightarrow> u16 \<Rightarrow> AmsConnection \<Rightarrow> error + (nat option \<times> AmsConnection)" where
  "Reserve id' p c =
     (case slot_index p c of
        None \<Rightarrow> Inl OutOfBounds
      | Some i \<Rightarrow>
          (let c1 = c\<lparr>cas_spurious := tl (cas_spurious c)\<rparr>;
               (ok, isFree, r) = compare_exchange_weak (spurious c) 0 id' (queue c1 ! i);
               c2 = c1\<lparr>queue := (queue c1)[i := r]\<rparr>
           in if \<not> ok then Inr (None, LOG (Port_already_in_use p isFree) c2)
              else Inr (Some i, c2)))"

text \<open>\<^verbatim>\<open>AmsConnection::Release\<close>, on the slot \<open>response\<close> points to.\<close>

definition Release :: "nat \<Rightarrow> AmsConnection \<Rightarrow> AmsConnection" where
  "Release response c =
     c\<lparr>queue := (queue c)[response :=
          (queue c ! response)\<lparr>frame := reset (frame (queue c ! response)), invokeId := 0\<rparr>]\<rparr>"

text \<open>
  \<^verbatim>\<open>AmsConnection::Write\<close>. The results are the slot (\<open>None\<close> for \<^verbatim>\<open>nullptr\<close>), the request
  frame with its headers, and the connection.
\<close>

definition Write ::
  "Frame \<Rightarrow> AmsAddr \<Rightarrow> AmsAddr \<Rightarrow> u16 \<Rightarrow> AmsConnection
     \<Rightarrow> error + (nat option \<times> Frame \<times> AmsConnection)" where
  "Write request destAddr srcAddr cmd c =
     (let (id', c1) = GetInvokeId c;
          aoeHeader = AoEHeader_request (declared c) (netId destAddr) (port destAddr)
                        (netId srcAddr) (port srcAddr) cmd
                        (word_of_nat (size_of_frame request)) id'
      in case prepend (AoEHeader_bytes aoeHeader) request of
           Inl e \<Rightarrow> Inl e
         | Inr request1 \<Rightarrow>
             (case prepend (AmsTcpHeader_bytes (word_of_nat (size_of_frame request1))) request1 of
                Inl e \<Rightarrow> Inl e
              | Inr request2 \<Rightarrow>
                  (case Reserve (invokeId_hdr aoeHeader) (port srcAddr) c1 of
                     Inl e \<Rightarrow> Inl e
                   | Inr (None, c2) \<Rightarrow> Inr (None, request2, c2)
                   | Inr (Some response, c2) \<Rightarrow>
                       (let (written, s') = socket_write (frame_data request2) (socket c2);
                            c3 = c2\<lparr>socket := s'\<rparr>
                        in if size_of_frame request2 \<noteq> written
                           then Inr (None, request2, Release response c3)
                           else Inr (Some response, request2, c3)))))"

subsection \<open>The reader\<close>

text \<open>
  \<^verbatim>\<open>AmsConnection::ReceiveFrame\<close>, on a frame and the connection whose socket is read. The
  warning is written before the bytes are drained.
\<close>

definition ReceiveFrame :: "Frame \<Rightarrow> nat \<Rightarrow> AmsConnection \<Rightarrow> error + (Frame \<times> AmsConnection)" where
  "ReceiveFrame f bytesLeft c =
     (if bytesLeft > capacity f
      then (let c1 = LOG (Frame_to_long bytesLeft (capacity f)) c
            in case ReceiveJunk bytesLeft (socket c1) of
                 Inl e \<Rightarrow> Inl e
               | Inr s' \<Rightarrow> Inr (clear f, c1\<lparr>socket := s'\<rparr>))
      else (case Receive bytesLeft (socket c) of
              Inl e \<Rightarrow> Inl e
            | Inr (bs, s') \<Rightarrow> Inr (limit bytesLeft (rawData_store bs f), c\<lparr>socket := s'\<rparr>)))"

text \<open>
  The loop of \<^verbatim>\<open>AmsConnection::ReceiveNotification\<close>:
  \<^verbatim>\<open>while (bytesLeft > chunk) { Receive(ring.write, chunk); ring.Write(chunk);
  bytesLeft -= chunk; chunk = ring.WriteChunk(); }\<close>.
  With a chunk of 0 bytes the loop does not advance, so not returning is a result of
  its own (\<open>None\<close>).
\<close>

partial_function (option) write_chunks ::
  "nat \<Rightarrow> RingBuffer \<Rightarrow> Socket \<Rightarrow> (error + (nat \<times> RingBuffer \<times> Socket)) option" where
  "write_chunks bytesLeft r s =
     (let chunk = WriteChunk r
      in if bytesLeft > chunk
         then (case Receive chunk s of
                 Inl e \<Rightarrow> Some (Inl e)
               | Inr (bs, s') \<Rightarrow>
                   write_chunks (bytesLeft - chunk) (ring_Write chunk (ring_store bs r)) s')
         else Some (Inr (bytesLeft, r, s)))"

text \<open>\<^verbatim>\<open>AmsConnection::ReceiveNotification\<close>; \<open>None\<close> when it does not return.\<close>

definition ReceiveNotification ::
  "AoEHeader \<Rightarrow> AmsConnection \<Rightarrow> (error + (bool \<times> AmsConnection)) option" where
  "ReceiveNotification header c =
     (let (dispatcher, dl') = Get (targetPort header, sourceAms header) (dispatcherList c);
          c1 = c\<lparr>dispatcherList := dl'\<rparr>
      in case dispatcher of
           None \<Rightarrow>
             (case ReceiveJunk (unat (length_hdr header)) (socket c1) of
                Inl e \<Rightarrow> Some (Inl e)
              | Inr s' \<Rightarrow> Some (Inr (False, LOG No_dispatcher_found (c1\<lparr>socket := s'\<rparr>))))
         | Some p \<Rightarrow>
             (let ring0 = ring (dispatchers c1 ! p);
                  bytesLeft = unat (length_hdr header)
              in if bytesLeft > BytesFree ring0
                 then (case ReceiveJunk bytesLeft (socket c1) of
                         Inl e \<Rightarrow> Some (Inl e)
                       | Inr s' \<Rightarrow>
                           Some (Inr (False,
                             LOG (Receive_buffer_was_full (targetPort header))
                               (c1\<lparr>socket := s'\<rparr>))))
                 else (case write_chunks bytesLeft ring0 (socket c1) of
                         None \<Rightarrow> None
                       | Some (Inl e) \<Rightarrow> Some (Inl e)
                       | Some (Inr (bytesLeft', ring1, s1)) \<Rightarrow>
                           (case Receive bytesLeft' s1 of
                              Inl e \<Rightarrow> Some (Inl e)
                            | Inr (bs, s2) \<Rightarrow>
                                (let ring2 = ring_Write bytesLeft' (ring_store bs ring1);
                                     d = Dispatcher_Notify ((dispatchers c1 ! p)\<lparr>ring := ring2\<rparr>)
                                 in Some (Inr (True,
                                      c1\<lparr>socket := s2,
                                         dispatchers := (dispatchers c1)[p := d]\<rparr>)))))))"

text \<open>The reply opcodes of the \<^verbatim>\<open>switch\<close> in \<^verbatim>\<open>AmsConnection::Recv\<close>.\<close>

definition accepted_reply :: "u16 \<Rightarrow> bool" where
  "accepted_reply cmd \<longleftrightarrow>
     cmd = READ_DEVICE_INFO \<or> cmd = READ \<or> cmd = WRITE \<or> cmd = READ_STATE \<or>
     cmd = WRITE_CONTROL \<or> cmd = ADD_DEVICE_NOTIFICATION \<or> cmd = DEL_DEVICE_NOTIFICATION \<or>
     cmd = READ_WRITE"

text \<open>
  One pass through the body of the \<^verbatim>\<open>for ( ; ; )\<close> loop of \<^verbatim>\<open>AmsConnection::Recv\<close>:
  \<open>Some (Inr c')\<close> when the pass ends (at a \<^verbatim>\<open>continue\<close> or at the end of the body)
  and the loop goes on from \<open>c'\<close>, \<open>Some (Inl e)\<close> when an exception leaves the loop.
\<close>

definition Recv_body :: "AmsConnection \<Rightarrow> (error + AmsConnection) option" where
  "Recv_body c =
     (case Receive sizeof_AmsTcpHeader (socket c) of
        Inl e \<Rightarrow> Some (Inl e)
      | Inr (raw1, s1) \<Rightarrow>
          (let c1 = c\<lparr>socket := s1\<rparr>;
               amsTcpHeader_length = unat (AmsTcpHeader_length raw1)
           in if amsTcpHeader_length < sizeof_AoEHeader
              then (let c2 = LOG Frame_to_short c1
                    in case ReceiveJunk amsTcpHeader_length (socket c2) of
                         Inl e \<Rightarrow> Some (Inl e)
                       | Inr s2 \<Rightarrow> Some (Inr (c2\<lparr>socket := s2\<rparr>)))
              else (case Receive sizeof_AoEHeader (socket c1) of
                      Inl e \<Rightarrow> Some (Inl e)
                    | Inr (raw2, s2) \<Rightarrow>
                        (let c2 = c1\<lparr>socket := s2\<rparr>;
                             aoeHeader = AoEHeader_of_bytes raw2
                         in if cmdId aoeHeader = DEVICE_NOTIFICATION
                            then (case ReceiveNotification aoeHeader c2 of
                                    None \<Rightarrow> None
                                  | Some (Inl e) \<Rightarrow> Some (Inl e)
                                  | Some (Inr (_, c3)) \<Rightarrow> Some (Inr c3))
                            else (case GetPending (invokeId_hdr aoeHeader) (targetPort aoeHeader) c2 of
                                    Inl e \<Rightarrow> Some (Inl e)
                                  | Inr (None, c3) \<Rightarrow>
                                      (let c4 = LOG No_response_pending c3
                                       in case ReceiveJunk (unat (length_hdr aoeHeader)) (socket c4) of
                                            Inl e \<Rightarrow> Some (Inl e)
                                          | Inr s5 \<Rightarrow> Some (Inr (c4\<lparr>socket := s5\<rparr>)))
                                  | Inr (Some response, c3) \<Rightarrow>
                                      (case ReceiveFrame (frame (queue c3 ! response))
                                              (unat (length_hdr aoeHeader)) c3 of
                                         Inl e \<Rightarrow> Some (Inl e)
                                       | Inr (f, c4) \<Rightarrow>
                                           (let (f', c5) =
                                                  (if accepted_reply (cmdId aoeHeader) then (f, c4)
                                                   else (clear f, LOG Unkown_AMS_command_id c4));
                                                r = Notify ((queue c5 ! response)\<lparr>frame := f'\<rparr>)
                                            in Some (Inr (c5\<lparr>queue := (queue c5)[response := r]\<rparr>)))))))))"

text \<open>
  \<^verbatim>\<open>AmsConnection::Recv\<close>: the loop has no exit but an exception. The result is that
  exception, with the connection as the last complete pass left it.
\<close>

partial_function (option) Recv :: "AmsConnection \<Rightarrow> (error \<times> AmsConnection) option" where
  "Recv c =
     (case Recv_body c of
        None \<Rightarrow> None
      | Some (Inl e) \<Rightarrow> Some (e, c)
      | Some (Inr c') \<Rightarrow> Recv c')"

text \<open>\<^verbatim>\<open>AmsConnection::TryRecv\<close>: a \<^verbatim>\<open>std::runtime_error\<close> is logged, anything else goes on.\<close>

definition TryRecv :: "AmsConnection \<Rightarrow> (error + AmsConnection) option" where
  "TryRecv c =
     (case Recv c of
        None \<Rightarrow> None
      | Some (e, c') \<Rightarrow>
          if e = runtime_error then Some (Inr (LOG (Info_what e) c')) else Some (Inl e))"

subsection \<open>Observing the model\<close>

text \<open>
  \<open>stream s\<close> is what the peer still delivers, in order, whatever the segments are.
  \<open>intact s\<close>: the stream has not been closed (no empty read is to come).
  \<open>delivers c tcp aoe payload rest\<close>: the next bytes for the reader are the 6 bytes
  \<open>tcp\<close> of an \<^verbatim>\<open>AmsTcpHeader\<close> announcing at least an \<^verbatim>\<open>AoEHeader\<close>, the 32 bytes
  \<open>aoe\<close> of an \<^verbatim>\<open>AoEHeader\<close>, and the \<open>payload\<close> whose length that header gives;
  \<open>rest\<close> follows.
\<close>

definition stream :: "Socket \<Rightarrow> byte list" where
  "stream s = concat (rx s)"

definition intact :: "Socket \<Rightarrow> bool" where
  "intact s \<longleftrightarrow> [] \<notin> set (rx s)"

definition delivers ::
  "AmsConnection \<Rightarrow> byte list \<Rightarrow> byte list \<Rightarrow> byte list \<Rightarrow> byte list \<Rightarrow> bool" where
  "delivers c tcp aoe payload rest \<longleftrightarrow>
     intact (socket c) \<and> stream (socket c) = tcp @ aoe @ payload @ rest \<and>
     length tcp = sizeof_AmsTcpHeader \<and> length aoe = sizeof_AoEHeader \<and>
     sizeof_AoEHeader \<le> unat (AmsTcpHeader_length tcp) \<and>
     unat (length_hdr (AoEHeader_of_bytes aoe)) = length payload"

text \<open>The invariant of a ring: both cursors are inside the buffer.\<close>

definition ring_ok :: "RingBuffer \<Rightarrow> bool" where
  "ring_ok r \<longleftrightarrow> write_cur r < length (ring_data r) \<and> read_cur r < length (ring_data r)"

text \<open>How many bytes the coming \<^verbatim>\<open>write\<close> on the socket takes at most.\<close>

definition accepts_next :: "Socket \<Rightarrow> nat" where
  "accepts_next s = (case tx_accept s of [] \<Rightarrow> 0 | k # _ \<Rightarrow> k)"

text \<open>Slot \<open>i\<close> after one pass of the reader's loop, when the pass completes.\<close>

definition slot_after_pass :: "nat \<Rightarrow> AmsConnection \<Rightarrow> AmsResponse option" where
  "slot_after_pass i c =
     (case Recv_body c of Some (Inr c') \<Rightarrow> Some (queue c' ! i) | _ \<Rightarrow> None)"

subsection \<open>Example connections\<close>

text \<open>
  A connection with 128 free slots from port 30000 on, the same connection waiting on
  port 30000 for the reply to invoke id 1, and frames as the peer sends them.
\<close>

definition example_declared :: Declared where
  "example_declared =
     \<lparr>PORT_BASE = 30000, request_stateFlags = 4, request_errorCode = 0, ring_size = 8\<rparr>"

definition fresh_conn :: AmsConnection where
  "fresh_conn =
     \<lparr>socket = \<lparr>rx = [], tx = [], tx_accept = []\<rparr>,
      invokeId_counter = 1,
      queue = replicate 128 AmsResponse_new,
      dispatcherList = \<lparr>list_map = Map.empty, held = 0, trace = []\<rparr>,
      dispatchers = [],
      log = [],
      cas_spurious = [],
      declared = example_declared\<rparr>"

definition waiting_conn :: "byte list list \<Rightarrow> AmsConnection" where
  "waiting_conn segments =
     fresh_conn\<lparr>socket := \<lparr>rx = segments, tx = [], tx_accept = []\<rparr>,
                invokeId_counter := 2,
                queue := (queue fresh_conn)[0 := AmsResponse_new\<lparr>invokeId := 1\<rparr>]\<rparr>"

definition example_tcp :: "byte \<Rightarrow> byte \<Rightarrow> byte list" where
  "example_tcp len0 len1 = [0, 0, len0, len1, 0, 0]"

definition example_aoe :: "byte \<Rightarrow> byte \<Rightarrow> byte \<Rightarrow> byte \<Rightarrow> byte \<Rightarrow> byte \<Rightarrow> byte list" where
  "example_aoe port0 port1 cmd len0 len1 inv0 =
     [192, 168, 0, 1, 1, 1, port0, port1, 192, 168, 0, 2, 1, 1, 0x53, 0x03,
      cmd, 0, 5, 0, len0, len1, 0, 0, 0, 0, 0, 0, inv0, 0, 0, 0]"

definition long_payload :: "byte list" where
  "long_payload = replicate 4097 0xAA"

definition long_reply_conn :: AmsConnection where
  "long_reply_conn =
     waiting_conn [example_tcp 0x21 0x10 @ example_aoe 0x30 0x75 2 1 0x10 1 @ long_payload]"

definition example_dest :: AmsAddr where
  "example_dest = \<lparr>netId = [192, 168, 0, 2, 1, 1], port = 851\<rparr>"

definition example_src :: AmsAddr where
  "example_src = \<lparr>netId = [192, 168, 0, 1, 1, 1], port = 30000\<rparr>"

definition spurious_conn :: AmsConnection where
  "spurious_conn = fresh_conn\<lparr>cas_spurious := [True]\<rparr>"

definition short_write_conn :: AmsConnection where
  "short_write_conn = fresh_conn\<lparr>socket := \<lparr>rx = [], tx = [], tx_accept = [10]\<rparr>\<rparr>"

definition example_vc :: VirtualConnection where
  "example_vc = (30000, example_dest)"

definition other_vc :: VirtualConnection where
  "other_vc = (30001, example_dest)"

definition subscribed_conn :: "RingBuffer \<Rightarrow> byte list list \<Rightarrow> AmsConnection" where
  "subscribed_conn r segments =
     fresh_conn\<lparr>socket := \<lparr>rx = segments, tx = [], tx_accept = []\<rparr>,
                dispatcherList := \<lparr>list_map = [example_vc \<mapsto> 0], held = 0, trace = []\<rparr>,
                dispatchers := [(NotificationDispatcher_new 8 example_dest 30000)\<lparr>ring := r\<rparr>]\<rparr>"

definition used_ring :: RingBuffer where
  "used_ring = \<lparr>ring_data = [0, 0, 0, 10, 11, 12, 0, 0, 0], write_cur = 6, read_cur = 3\<rparr>"

section \<open>Properties\<close>

subsection \<open>Reading from the socket\<close>

lemma socket_read_Inr:
  assumes "intact s" "0 < n" "0 < length (stream s)"
  shows "\<exists>bs s'. socket_read n s = Inr (bs, s') \<and> 0 < length bs \<and> length bs \<le> n \<and>
           stream s = bs @ stream s' \<and> intact s' \<and> tx s' = tx s \<and> tx_accept s' = tx_accept s"
proof (cases "rx s")
  case Nil
  with assms show ?thesis by (simp add: stream_def)
next
  case (Cons seg rest)
  with assms have seg: "seg \<noteq> []" and rest: "[] \<notin> set rest"
    by (auto simp: intact_def)
  show ?thesis
  proof (cases "n < length seg")
    case True
    with Cons seg rest assms(2) show ?thesis
      by (simp add: socket_read_def stream_def intact_def Let_def min_def)
  next
    case False
    with Cons seg rest assms(2) show ?thesis
      by (simp add: socket_read_def stream_def intact_def Let_def min_def)
  qed
qed

lemma Receive_Inr:
  "intact s \<Longrightarrow> n \<le> length (stream s) \<Longrightarrow>
   \<exists>s'. Receive n s = Inr (take n (stream s), s') \<and> stream s' = drop n (stream s) \<and>
        intact s' \<and> tx s' = tx s \<and> tx_accept s' = tx_accept s"
proof (induction n s rule: Receive.induct)
  case (1 n s)
  show ?case
  proof (cases "n = 0")
    case True
    with 1(2) show ?thesis by (simp add: Receive.simps [of 0])
  next
    case False
    with 1(3) have "0 < n" "0 < length (stream s)" by auto
    from socket_read_Inr [OF 1(2) this]
    obtain bs s1 where rd: "socket_read n s = Inr (bs, s1)" and bs: "0 < length bs" "length bs \<le> n"
      and st: "stream s = bs @ stream s1" and ok: "intact s1" "tx s1 = tx s" "tx_accept s1 = tx_accept s"
      by blast
    from st 1(3) bs have len: "n - length bs \<le> length (stream s1)" by simp
    from 1(1) [OF False rd refl ok(1) len]
    obtain s2 where r2: "Receive (n - length bs) s1 = Inr (take (n - length bs) (stream s1), s2)"
      and s2: "stream s2 = drop (n - length bs) (stream s1)" "intact s2" "tx s2 = tx s1"
        "tx_accept s2 = tx_accept s1"
      by blast
    from False rd r2 have "Receive n s = Inr (bs @ take (n - length bs) (stream s1), s2)"
      by (simp add: Receive.simps [of n s])
    with st bs s2 ok show ?thesis by simp
  qed
qed

lemma ReceiveJunk_Inr:
  "intact s \<Longrightarrow> n \<le> length (stream s) \<Longrightarrow>
   \<exists>s'. ReceiveJunk n s = Inr s' \<and> stream s' = drop n (stream s) \<and>
        intact s' \<and> tx s' = tx s \<and> tx_accept s' = tx_accept s"
proof (induction n s rule: ReceiveJunk.induct)
  case (1 n s)
  show ?case
  proof (cases "n > 1024")
    case True
    with 1(3) have "1024 \<le> length (stream s)" by simp
    from Receive_Inr [OF 1(2) this]
    obtain s1 where r1: "Receive 1024 s = Inr (take 1024 (stream s), s1)"
      and s1: "stream s1 = drop 1024 (stream s)" "intact s1" "tx s1 = tx s" "tx_accept s1 = tx_accept s"
      by blast
    from s1(1) 1(3) have len: "n - 1024 \<le> length (stream s1)" by simp
    from 1(1) [OF True r1 refl s1(2) len]
    obtain s2 where r2: "ReceiveJunk (n - 1024) s1 = Inr s2"
      and s2: "stream s2 = drop (n - 1024) (stream s1)" "intact s2" "tx s2 = tx s1"
        "tx_accept s2 = tx_accept s1"
      by blast
    from True r1 r2 have "ReceiveJunk n s = Inr s2"
      by (simp add: ReceiveJunk.simps [of n s])
    with s1 s2 True show ?thesis by (simp add: add.commute)
  next
    case False
    from Receive_Inr [OF 1(2) 1(3)]
    obtain s1 where r1: "Receive n s = Inr (take n (stream s), s1)"
      and s1: "stream s1 = drop n (stream s)" "intact s1" "tx s1 = tx s" "tx_accept s1 = tx_accept s"
      by blast
    from False r1 have "ReceiveJunk n s = Inr s1"
      by (simp add: ReceiveJunk.simps [of n s])
    with s1 show ?thesis by simp
  qed
qed

subsection \<open>The invoke-id generator\<close>

lemma GetInvokeId_nonzero:
  "invokeId_counter c \<noteq> 0 \<Longrightarrow>
   GetInvokeId c = (invokeId_counter c, c\<lparr>invokeId_counter := invokeId_counter c + 1\<rparr>)"
  by (simp add: GetInvokeId.simps [of c] Let_def)

lemma GetInvokeId_eq:
  "GetInvokeId c =
     (if invokeId_counter c = 0 then (1, c\<lparr>invokeId_counter := 2\<rparr>)
      else (invokeId_counter c, c\<lparr>invokeId_counter := invokeId_counter c + 1\<rparr>))"
proof (cases "invokeId_counter c = 0")
  case True
  then have "GetInvokeId c = GetInvokeId (c\<lparr>invokeId_counter := 1\<rparr>)"
    by (simp add: GetInvokeId.simps [of c] Let_def)
  also have "\<dots> = (1, c\<lparr>invokeId_counter := 2\<rparr>)"
    by (simp add: GetInvokeId_nonzero)
  finally show ?thesis using True by simp
next
  case False
  then show ?thesis by (simp add: GetInvokeId_nonzero)
qed

text \<open>
  C4. Every invoke id returned by \<open>GetInvokeId\<close> is strictly positive, whatever the
  counter holds, also when the 32-bit counter has wrapped around to 0: the value 0 is
  skipped, the id 1 is emitted in its place and the counter is left at 2. A nonzero
  counter value is emitted as it is and the counter advances by one (modulo
  \<open>2 ^ 32\<close>): after the largest id the counter is 0, and the id after it is 1.
\<close>

theorem GetInvokeId_positive:
  "fst (GetInvokeId c) \<noteq> 0 \<and> 0 < unat (fst (GetInvokeId c)) \<and>
   GetInvokeId c =
     (if invokeId_counter c = 0 then (1, c\<lparr>invokeId_counter := 2\<rparr>)
      else (invokeId_counter c, c\<lparr>invokeId_counter := invokeId_counter c + 1\<rparr>)) \<and>
   GetInvokeId (c\<lparr>invokeId_counter := 0xFFFFFFFF\<rparr>) =
     (0xFFFFFFFF, c\<lparr>invokeId_counter := 0\<rparr>) \<and>
   fst (GetInvokeId (snd (GetInvokeId (c\<lparr>invokeId_counter := 0xFFFFFFFF\<rparr>)))) = 1"
  by (simp add: GetInvokeId_eq unat_gt_0)

subsection \<open>The reader's passes\<close>

lemma headers_received:
  assumes "delivers c tcp aoe payload rest"
  shows "\<exists>s1 s2. Receive sizeof_AmsTcpHeader (socket c) = Inr (tcp, s1) \<and>
           Receive sizeof_AoEHeader s1 = Inr (aoe, s2) \<and>
           stream s2 = payload @ rest \<and> intact s2 \<and>
           tx s2 = tx (socket c) \<and> tx_accept s2 = tx_accept (socket c)"
proof -
  from assms have ok: "intact (socket c)" and st: "stream (socket c) = tcp @ aoe @ payload @ rest"
    and l1: "length tcp = sizeof_AmsTcpHeader" and l2: "length aoe = sizeof_AoEHeader"
    by (simp_all add: delivers_def)
  from st l1 have "sizeof_AmsTcpHeader \<le> length (stream (socket c))" by simp
  from Receive_Inr [OF ok this] st l1
  obtain s1 where r1: "Receive sizeof_AmsTcpHeader (socket c) = Inr (tcp, s1)"
    and s1: "stream s1 = aoe @ payload @ rest" "intact s1" "tx s1 = tx (socket c)"
      "tx_accept s1 = tx_accept (socket c)"
    by auto
  from s1(1) l2 have "sizeof_AoEHeader \<le> length (stream s1)" by simp
  from Receive_Inr [OF s1(2) this] s1(1) l2
  obtain s2 where r2: "Receive sizeof_AoEHeader s1 = Inr (aoe, s2)"
    and s2: "stream s2 = payload @ rest" "intact s2" "tx s2 = tx s1" "tx_accept s2 = tx_accept s1"
    by auto
  from r1 r2 s1 s2 show ?thesis by auto
qed

lemma ReceiveFrame_fits:
  assumes "intact (socket c)" "stream (socket c) = payload @ rest" "length payload \<le> capacity f"
  shows "\<exists>s'. ReceiveFrame f (length payload) c =
            Inr (limit (length payload) (rawData_store payload f), c\<lparr>socket := s'\<rparr>) \<and>
          stream s' = rest \<and> intact s' \<and> tx s' = tx (socket c) \<and>
          tx_accept s' = tx_accept (socket c)"
proof -
  from assms(2) have "length payload \<le> length (stream (socket c))" by simp
  from Receive_Inr [OF assms(1) this] assms(2)
  obtain s' where "Receive (length payload) (socket c) = Inr (payload, s')"
    and "stream s' = rest" "intact s'" "tx s' = tx (socket c)"
      "tx_accept s' = tx_accept (socket c)"
    by auto
  with assms(3) show ?thesis by (auto simp: ReceiveFrame_def)
qed

lemma ReceiveFrame_too_long:
  assumes "intact (socket c)" "stream (socket c) = payload @ rest" "capacity f < length payload"
  shows "\<exists>s'. ReceiveFrame f (length payload) c =
            Inr (clear f, (LOG (Frame_to_long (length payload) (capacity f)) c)\<lparr>socket := s'\<rparr>) \<and>
          stream s' = rest \<and> intact s' \<and> tx s' = tx (socket c) \<and>
          tx_accept s' = tx_accept (socket c)"
proof -
  from assms(2) have "length payload \<le> length (stream (socket c))" by simp
  from ReceiveJunk_Inr [OF assms(1) this] assms(2)
  obtain s' where "ReceiveJunk (length payload) (socket c) = Inr s'"
    and "stream s' = rest" "intact s'" "tx s' = tx (socket c)"
      "tx_accept s' = tx_accept (socket c)"
    by auto
  with assms(3) show ?thesis by (auto simp: ReceiveFrame_def LOG_def)
qed

lemma frame_data_received:
  "length payload \<le> capacity f \<Longrightarrow>
   frame_data (limit (length payload) (rawData_store payload f)) = payload"
  by (simp add: frame_data_def limit_def rawData_store_def store_at_def capacity_def)

lemma frame_data_clear: "frame_data (clear f) = []"
  by (simp add: frame_data_def clear_def)

lemma size_of_frame_clear: "size_of_frame (clear f) = 0"
  by (simp add: size_of_frame_def clear_def)

lemma slot_index_socket [simp]: "slot_index p (c\<lparr>socket := s\<rparr>) = slot_index p c"
  by (simp add: slot_index_def)

lemma slot_index_bound: "slot_index p c = Some i \<Longrightarrow> i < length (queue c)"
  by (auto simp: slot_index_def Let_def split: if_splits)

text \<open>A reply whose invoke id is the slot's: the pass stores or drops the payload and notifies.\<close>

lemma Recv_body_reply:
  assumes d: "delivers c tcp aoe payload rest"
    and h: "h = AoEHeader_of_bytes aoe"
    and cmd: "cmdId h \<noteq> DEVICE_NOTIFICATION"
    and idx: "slot_index (targetPort h) c = Some i"
    and match: "invokeId (queue c ! i) = invokeId_hdr h"
  shows "\<exists>s'. stream s' = rest \<and> intact s' \<and> tx s' = tx (socket c) \<and>
           tx_accept s' = tx_accept (socket c) \<and>
           Recv_body c = Some (Inr (c\<lparr>socket := s',
             queue := (queue c)[i := Notify ((queue c ! i)\<lparr>frame :=
               (let f = (if length payload \<le> capacity (frame (queue c ! i))
                         then limit (length payload) (rawData_store payload (frame (queue c ! i)))
                         else clear (frame (queue c ! i)))
                in if accepted_reply (cmdId h) then f else clear f)\<rparr>)],
             log := log c @
               (if length payload \<le> capacity (frame (queue c ! i)) then []
                else [Frame_to_long (length payload) (capacity (frame (queue c ! i)))]) @
               (if accepted_reply (cmdId h) then [] else [Unkown_AMS_command_id])\<rparr>))"
proof -
  from headers_received [OF d]
  obtain s1 s2 where r1: "Receive sizeof_AmsTcpHeader (socket c) = Inr (tcp, s1)"
    and r2: "Receive sizeof_AoEHeader s1 = Inr (aoe, s2)"
    and s2: "stream s2 = payload @ rest" "intact s2" "tx s2 = tx (socket c)"
      "tx_accept s2 = tx_accept (socket c)"
    by blast
  from d h have len: "unat (length_hdr h) = length payload"
    and big: "\<not> unat (AmsTcpHeader_length tcp) < sizeof_AoEHeader"
    by (simp_all add: delivers_def)
  let ?c2 = "c\<lparr>socket := s2\<rparr>"
  let ?f = "frame (queue c ! i)"
  have gp: "GetPending (invokeId_hdr h) (targetPort h) ?c2 = Inr (Some i, ?c2)"
    using idx match by (simp add: GetPending_def)
  show ?thesis
  proof (cases "length payload \<le> capacity ?f")
    case True
    from ReceiveFrame_fits [of ?c2 payload rest ?f] s2 True
    obtain s' where rf: "ReceiveFrame ?f (length payload) ?c2 =
        Inr (limit (length payload) (rawData_store payload ?f), ?c2\<lparr>socket := s'\<rparr>)"
      and s': "stream s' = rest" "intact s'" "tx s' = tx (socket c)"
        "tx_accept s' = tx_accept (socket c)"
      by auto
    have "Recv_body c = Some (Inr (c\<lparr>socket := s',
             queue := (queue c)[i := Notify ((queue c ! i)\<lparr>frame :=
               (let f = limit (length payload) (rawData_store payload ?f)
                in if accepted_reply (cmdId h) then f else clear f)\<rparr>)],
             log := log c @ (if accepted_reply (cmdId h) then [] else [Unkown_AMS_command_id])\<rparr>))"
      using r1 r2 big cmd gp rf len h [symmetric]
      by (simp add: Recv_body_def Let_def LOG_def)
    with True s' show ?thesis by auto
  next
    case False
    from ReceiveFrame_too_long [of ?c2 payload rest ?f] s2 False
    obtain s' where rf: "ReceiveFrame ?f (length payload) ?c2 =
        Inr (clear ?f, (LOG (Frame_to_long (length payload) (capacity ?f)) ?c2)\<lparr>socket := s'\<rparr>)"
      and s': "stream s' = rest" "intact s'" "tx s' = tx (socket c)"
        "tx_accept s' = tx_accept (socket c)"
      by auto
    have "Recv_body c = Some (Inr (c\<lparr>socket := s',
             queue := (queue c)[i := Notify ((queue c ! i)\<lparr>frame :=
               (let f = clear ?f
                in if accepted_reply (cmdId h) then f else clear f)\<rparr>)],
             log := log c @ [Frame_to_long (length payload) (capacity ?f)] @
                (if accepted_reply (cmdId h) then [] else [Unkown_AMS_command_id])\<rparr>))"
      using r1 r2 big cmd gp rf len h [symmetric]
      by (simp add: Recv_body_def Let_def LOG_def)
    with False s' show ?thesis by auto
  qed
qed

text \<open>A reply whose invoke id is not the slot's: the pass drains it.\<close>

lemma Recv_body_mismatch:
  assumes d: "delivers c tcp aoe payload rest"
    and h: "h = AoEHeader_of_bytes aoe"
    and cmd: "cmdId h \<noteq> DEVICE_NOTIFICATION"
    and idx: "slot_index (targetPort h) c = Some i"
    and differ: "invokeId (queue c ! i) \<noteq> invokeId_hdr h"
  shows "\<exists>s'. stream s' = rest \<and> intact s' \<and> tx s' = tx (socket c) \<and>
           tx_accept s' = tx_accept (socket c) \<and>
           Recv_body c = Some (Inr (c\<lparr>socket := s',
             log := log c @ [InvokeId_missmatch (invokeId (queue c ! i)) (invokeId_hdr h),
                             No_response_pending]\<rparr>))"
proof -
  from headers_received [OF d]
  obtain s1 s2 where r1: "Receive sizeof_AmsTcpHeader (socket c) = Inr (tcp, s1)"
    and r2: "Receive sizeof_AoEHeader s1 = Inr (aoe, s2)"
    and s2: "stream s2 = payload @ rest" "intact s2" "tx s2 = tx (socket c)"
      "tx_accept s2 = tx_accept (socket c)"
    by blast
  from d h have len: "unat (length_hdr h) = length payload"
    and big: "\<not> unat (AmsTcpHeader_length tcp) < sizeof_AoEHeader"
    by (simp_all add: delivers_def)
  let ?c2 = "c\<lparr>socket := s2\<rparr>"
  have gp: "GetPending (invokeId_hdr h) (targetPort h) ?c2 =
      Inr (None, LOG (InvokeId_missmatch (invokeId (queue c ! i)) (invokeId_hdr h)) ?c2)"
    using idx differ by (simp add: GetPending_def)
  from s2(1) have "length payload \<le> length (stream s2)" by simp
  from ReceiveJunk_Inr [OF s2(2) this] s2
  obtain s' where rj: "ReceiveJunk (length payload) s2 = Inr s'"
    and s': "stream s' = rest" "intact s'" "tx s' = tx (socket c)"
      "tx_accept s' = tx_accept (socket c)"
    by auto
  have "Recv_body c = Some (Inr (c\<lparr>socket := s',
             log := log c @ [InvokeId_missmatch (invokeId (queue c ! i)) (invokeId_hdr h),
                             No_response_pending]\<rparr>))"
    using r1 r2 big cmd gp rj len h [symmetric]
    by (simp add: Recv_body_def Let_def LOG_def)
  with s' show ?thesis by auto
qed


lemma example_aoe_parsed:
  "AoEHeader_of_bytes (example_aoe port0 port1 cmd len0 len1 inv0) =
     \<lparr>targetNetId = [192, 168, 0, 1, 1, 1],
      targetPort = word_of_nat (unat port0 + 256 * unat port1),
      sourceNetId = [192, 168, 0, 2, 1, 1],
      sourcePort = 851,
      cmdId = word_of_nat (unat cmd),
      stateFlags = 5,
      length_hdr = word_of_nat (unat len0 + 256 * unat len1),
      errorCode = 0,
      invokeId_hdr = word_of_nat (unat inv0)\<rparr>"
  by (simp add: AoEHeader_of_bytes_def example_aoe_def le_word_def)

lemma example_tcp_length:
  "AmsTcpHeader_length (example_tcp len0 len1) = word_of_nat (unat len0 + 256 * unat len1)"
  by (simp add: AmsTcpHeader_length_def example_tcp_def le_word_def)


lemma Recv_continues: "Recv_body c = Some (Inr c') \<Longrightarrow> Recv c = Recv c'"
  by (simp add: Recv.simps [of c])

lemma accepted_reply_not_notification: "accepted_reply cmd \<Longrightarrow> cmd \<noteq> DEVICE_NOTIFICATION"
  by (auto simp: accepted_reply_def DEVICE_NOTIFICATION_def READ_DEVICE_INFO_def READ_def
      WRITE_def READ_STATE_def WRITE_CONTROL_def ADD_DEVICE_NOTIFICATION_def
      DEL_DEVICE_NOTIFICATION_def READ_WRITE_def)

lemma example_delivers:
  "delivers (waiting_conn [example_tcp 36 0 @ take 10 (example_aoe 0x30 0x75 cmd 4 0 inv0),
      drop 10 (example_aoe 0x30 0x75 cmd 4 0 inv0) @ [1, 0, 0, 0]])
     (example_tcp 36 0) (example_aoe 0x30 0x75 cmd 4 0 inv0) [1, 0, 0, 0] []"
proof -
  have "unat (AmsTcpHeader_length (example_tcp 36 0)) = 36"
    by (simp add: example_tcp_length)
  moreover have "unat (length_hdr (AoEHeader_of_bytes (example_aoe 0x30 0x75 cmd 4 0 inv0))) = 4"
    by (simp add: example_aoe_parsed)
  moreover have "length (example_tcp 36 0) = 6" "length (example_aoe 0x30 0x75 cmd 4 0 inv0) = 32"
    by (simp_all add: example_tcp_def example_aoe_def)
  moreover have "stream (socket (waiting_conn [example_tcp 36 0 @ take 10 (example_aoe 0x30 0x75 cmd 4 0 inv0),
      drop 10 (example_aoe 0x30 0x75 cmd 4 0 inv0) @ [1, 0, 0, 0]])) =
      example_tcp 36 0 @ example_aoe 0x30 0x75 cmd 4 0 inv0 @ [1, 0, 0, 0] @ []"
    by (simp add: waiting_conn_def stream_def example_aoe_def)
  moreover have "intact (socket (waiting_conn [example_tcp 36 0 @ take 10 (example_aoe 0x30 0x75 cmd 4 0 inv0),
      drop 10 (example_aoe 0x30 0x75 cmd 4 0 inv0) @ [1, 0, 0, 0]]))"
    by (simp add: waiting_conn_def intact_def example_tcp_def)
  ultimately show ?thesis
    by (simp add: delivers_def sizeof_AmsTcpHeader_def sizeof_AoEHeader_def)
qed

lemma example_slot:
  "slot_index (targetPort (AoEHeader_of_bytes (example_aoe 0x30 0x75 cmd len0 len1 inv0)))
     (waiting_conn segs) = Some 0"
  by (simp add: example_aoe_parsed slot_index_def waiting_conn_def fresh_conn_def example_declared_def)

lemma example_waiting:
  "capacity (frame (queue (waiting_conn segs) ! 0)) = 4096"
  "invokeId (queue (waiting_conn segs) ! 0) = 1"
  "notified (queue (waiting_conn segs) ! 0) = 0"
  "log (waiting_conn segs) = []"
  by (simp_all add: waiting_conn_def fresh_conn_def AmsResponse_new_def Frame_new_def capacity_def)

text \<open>
  C1, as the code has it. A reply frame with one of the accepted reply opcodes arrives,
  and its invoke id is the one in the slot of its target port. When the length the header
  gives is at most the capacity of the slot's frame (4096 bytes for the frame its
  constructor builds), the reader copies exactly that many bytes into the frame and
  limits the frame to them, so the frame holds exactly the payload. A longer reply is
  drained and the frame is cleared. In both cases the slot is notified (its invoke id
  is 0 again, so the caller's wait returns true), the reader has consumed exactly
  the frame, and its loop goes on.
\<close>

theorem reply_received:
  assumes "delivers c tcp aoe payload rest"
    and "h = AoEHeader_of_bytes aoe"
    and "accepted_reply (cmdId h)"
    and "slot_index (targetPort h) c = Some i"
    and "invokeId (queue c ! i) = invokeId_hdr h"
  shows "\<exists>c'. Recv_body c = Some (Inr c') \<and> Recv c = Recv c' \<and>
           frame (queue c' ! i) =
             (if unat (length_hdr h) \<le> capacity (frame (queue c ! i))
              then limit (unat (length_hdr h)) (rawData_store payload (frame (queue c ! i)))
              else clear (frame (queue c ! i))) \<and>
           frame_data (frame (queue c' ! i)) =
             (if unat (length_hdr h) \<le> capacity (frame (queue c ! i)) then payload else []) \<and>
           invokeId (queue c' ! i) = 0 \<and>
           notified (queue c' ! i) = notified (queue c ! i) + 1 \<and>
           Wait (queue c' ! i) \<and>
           stream (socket c') = rest"
proof -
  from assms(1,2) have len: "unat (length_hdr h) = length payload"
    by (simp add: delivers_def)
  from assms(4) have i: "i < length (queue c)" by (rule slot_index_bound)
  let ?F = "frame (queue c ! i)"
  let ?f = "if length payload \<le> capacity ?F
            then limit (length payload) (rawData_store payload ?F) else clear ?F"
  from Recv_body_reply [OF assms(1,2) accepted_reply_not_notification [OF assms(3)] assms(4,5)]
    assms(3)
  obtain s' l' where s': "stream s' = rest"
    and step: "Recv_body c = Some (Inr (c\<lparr>socket := s',
        queue := (queue c)[i := Notify ((queue c ! i)\<lparr>frame := ?f\<rparr>)], log := l'\<rparr>))"
    by (auto simp: Let_def)
  have "frame_data ?f = (if length payload \<le> capacity ?F then payload else [])"
    by (simp add: frame_data_received frame_data_clear)
  then show ?thesis
    using step i s' len Recv_continues [OF step]
    by (simp add: Notify_def Wait_def)
qed

theorem reply_received_witness:
  "delivers (waiting_conn [example_tcp 36 0 @ take 10 (example_aoe 0x30 0x75 4 4 0 1),
      drop 10 (example_aoe 0x30 0x75 4 4 0 1) @ [1, 0, 0, 0]])
     (example_tcp 36 0) (example_aoe 0x30 0x75 4 4 0 1) [1, 0, 0, 0] [] \<and>
   accepted_reply (cmdId (AoEHeader_of_bytes (example_aoe 0x30 0x75 4 4 0 1))) \<and>
   (\<exists>c'. Recv_body (waiting_conn [example_tcp 36 0 @ take 10 (example_aoe 0x30 0x75 4 4 0 1),
      drop 10 (example_aoe 0x30 0x75 4 4 0 1) @ [1, 0, 0, 0]]) = Some (Inr c') \<and>
      frame_data (frame (queue c' ! 0)) = [1, 0, 0, 0] \<and>
      invokeId (queue c' ! 0) = 0 \<and> notified (queue c' ! 0) = 1 \<and> Wait (queue c' ! 0) \<and>
      stream (socket c') = [])"
proof -
  let ?aoe = "example_aoe 0x30 0x75 4 4 0 1"
  let ?c = "waiting_conn [example_tcp 36 0 @ take 10 ?aoe, drop 10 ?aoe @ [1, 0, 0, 0]]"
  have acc: "accepted_reply (cmdId (AoEHeader_of_bytes ?aoe))"
    by (simp add: example_aoe_parsed accepted_reply_def READ_STATE_def)
  have match: "invokeId (queue ?c ! 0) = invokeId_hdr (AoEHeader_of_bytes ?aoe)"
    by (simp add: example_waiting example_aoe_parsed)
  have fits: "unat (length_hdr (AoEHeader_of_bytes ?aoe)) \<le> capacity (frame (queue ?c ! 0))"
    by (simp add: example_waiting example_aoe_parsed)
  from reply_received [OF example_delivers refl acc example_slot match]
    example_delivers [of 4 1] acc fits
  show ?thesis by (auto simp: example_waiting)
qed

lemma long_reply_delivers:
  "delivers long_reply_conn (example_tcp 0x21 0x10) (example_aoe 0x30 0x75 2 1 0x10 1)
     long_payload []"
proof -
  have "unat (AmsTcpHeader_length (example_tcp 0x21 0x10)) = 4129"
    by (simp add: example_tcp_length)
  moreover have "unat (length_hdr (AoEHeader_of_bytes (example_aoe 0x30 0x75 2 1 0x10 1))) = 4097"
    by (simp add: example_aoe_parsed)
  moreover have "length (example_tcp 0x21 0x10) = 6"
    "length (example_aoe 0x30 0x75 2 1 0x10 1) = 32" "length long_payload = 4097"
    by (simp_all add: example_tcp_def example_aoe_def long_payload_def)
  moreover have "stream (socket long_reply_conn) =
      example_tcp 0x21 0x10 @ example_aoe 0x30 0x75 2 1 0x10 1 @ long_payload @ []"
    by (simp add: long_reply_conn_def waiting_conn_def stream_def)
  moreover have "intact (socket long_reply_conn)"
    by (simp add: long_reply_conn_def waiting_conn_def intact_def example_tcp_def)
  ultimately show ?thesis
    by (simp add: delivers_def sizeof_AmsTcpHeader_def sizeof_AoEHeader_def)
qed

text \<open>
  C1 as it is stated fails for a reply longer than the frame's capacity: a READ
  reply of 4097 bytes with the invoke id 1 of the slot of port 30000 leaves the frame
  empty, and the caller's wait returns true all the same.
\<close>

theorem long_reply_counterexample:
  "delivers long_reply_conn (example_tcp 0x21 0x10) (example_aoe 0x30 0x75 2 1 0x10 1)
     long_payload [] \<and>
   cmdId (AoEHeader_of_bytes (example_aoe 0x30 0x75 2 1 0x10 1)) = READ \<and>
   slot_index (targetPort (AoEHeader_of_bytes (example_aoe 0x30 0x75 2 1 0x10 1)))
     long_reply_conn = Some 0 \<and>
   invokeId (queue long_reply_conn ! 0) =
     invokeId_hdr (AoEHeader_of_bytes (example_aoe 0x30 0x75 2 1 0x10 1)) \<and>
   invokeId (queue long_reply_conn ! 0) = 1 \<and>
   length long_payload = 4097 \<and>
   map_option (frame_data \<circ> frame) (slot_after_pass 0 long_reply_conn) = Some [] \<and>
   map_option Wait (slot_after_pass 0 long_reply_conn) = Some True"
proof -
  let ?aoe = "example_aoe 0x30 0x75 2 1 0x10 1"
  let ?h = "AoEHeader_of_bytes ?aoe"
  have cmd: "cmdId ?h = READ"
    by (simp add: example_aoe_parsed READ_def)
  then have acc: "accepted_reply (cmdId ?h)" and notif: "cmdId ?h \<noteq> DEVICE_NOTIFICATION"
    by (simp_all add: accepted_reply_def READ_def DEVICE_NOTIFICATION_def)
  have idx: "slot_index (targetPort ?h) long_reply_conn = Some 0"
    unfolding long_reply_conn_def by (rule example_slot)
  have slot: "invokeId (queue long_reply_conn ! 0) = 1"
    "capacity (frame (queue long_reply_conn ! 0)) = 4096"
    unfolding long_reply_conn_def by (simp_all add: example_waiting)
  have match: "invokeId (queue long_reply_conn ! 0) = invokeId_hdr ?h"
    by (simp add: slot example_aoe_parsed)
  have len: "length long_payload = 4097"
    by (simp add: long_payload_def)
  from Recv_body_reply [OF long_reply_delivers refl notif idx match] acc slot(2) len
  obtain s' l' where "Recv_body long_reply_conn = Some (Inr (long_reply_conn\<lparr>socket := s',
        queue := (queue long_reply_conn)[0 :=
          Notify ((queue long_reply_conn ! 0)\<lparr>frame := clear (frame (queue long_reply_conn ! 0))\<rparr>)],
        log := l'\<rparr>))"
    by (auto simp: Let_def)
  moreover have "0 < length (queue long_reply_conn)"
    by (simp add: long_reply_conn_def waiting_conn_def fresh_conn_def)
  ultimately have "slot_after_pass 0 long_reply_conn =
      Some (Notify ((queue long_reply_conn ! 0)\<lparr>frame := clear (frame (queue long_reply_conn ! 0))\<rparr>))"
    by (simp add: slot_after_pass_def)
  then show ?thesis
    using long_reply_delivers cmd idx match slot(1) len
    by (simp add: frame_data_clear Notify_def Wait_def)
qed

text \<open>
  C6. A reply frame arrives whose invoke id differs from the one stored in the slot of
  its target port. The reader logs the mismatch (and that no response is pending),
  drains exactly \<open>header.length\<close> bytes from the socket and goes on with its loop.
  No slot changes: invoke id, frame and notification count of the slot are as before,
  so a caller waiting on the slot (its invoke id is not 0) finds its wait false when
  the timeout passes.
\<close>

theorem mismatched_reply_drained:
  assumes "delivers c tcp aoe payload rest"
    and "h = AoEHeader_of_bytes aoe"
    and "cmdId h \<noteq> DEVICE_NOTIFICATION"
    and "slot_index (targetPort h) c = Some i"
    and "invokeId (queue c ! i) \<noteq> invokeId_hdr h"
  shows "\<exists>c'. Recv_body c = Some (Inr c') \<and> Recv c = Recv c' \<and>
           log c' = log c @ [InvokeId_missmatch (invokeId (queue c ! i)) (invokeId_hdr h),
                             No_response_pending] \<and>
           stream (socket c') = drop (unat (length_hdr h)) (payload @ rest) \<and>
           stream (socket c') = rest \<and>
           queue c' = queue c \<and>
           invokeId (queue c' ! i) = invokeId (queue c ! i) \<and>
           frame (queue c' ! i) = frame (queue c ! i) \<and>
           notified (queue c' ! i) = notified (queue c ! i) \<and>
           Wait (queue c' ! i) = (invokeId (queue c ! i) = 0)"
proof -
  from assms(1,2) have len: "unat (length_hdr h) = length payload"
    by (simp add: delivers_def)
  from Recv_body_mismatch [OF assms]
  obtain s' where s': "stream s' = rest"
    and step: "Recv_body c = Some (Inr (c\<lparr>socket := s',
        log := log c @ [InvokeId_missmatch (invokeId (queue c ! i)) (invokeId_hdr h),
                        No_response_pending]\<rparr>))"
    by blast
  from step s' len Recv_continues [OF step] show ?thesis
    by (simp add: Wait_def)
qed

theorem mismatched_reply_drained_witness:
  "delivers (waiting_conn [example_tcp 36 0 @ take 10 (example_aoe 0x30 0x75 4 4 0 2),
      drop 10 (example_aoe 0x30 0x75 4 4 0 2) @ [1, 0, 0, 0]])
     (example_tcp 36 0) (example_aoe 0x30 0x75 4 4 0 2) [1, 0, 0, 0] [] \<and>
   invokeId_hdr (AoEHeader_of_bytes (example_aoe 0x30 0x75 4 4 0 2)) = 2 \<and>
   (\<exists>c'. Recv_body (waiting_conn [example_tcp 36 0 @ take 10 (example_aoe 0x30 0x75 4 4 0 2),
      drop 10 (example_aoe 0x30 0x75 4 4 0 2) @ [1, 0, 0, 0]]) = Some (Inr c') \<and>
      log c' = [InvokeId_missmatch 1 2, No_response_pending] \<and>
      stream (socket c') = [] \<and>
      invokeId (queue c' ! 0) = 1 \<and> frame (queue c' ! 0) = Frame_new 4096 \<and>
      notified (queue c' ! 0) = 0 \<and> \<not> Wait (queue c' ! 0))"
proof -
  let ?aoe = "example_aoe 0x30 0x75 4 4 0 2"
  let ?c = "waiting_conn [example_tcp 36 0 @ take 10 ?aoe, drop 10 ?aoe @ [1, 0, 0, 0]]"
  have cmd: "cmdId (AoEHeader_of_bytes ?aoe) \<noteq> DEVICE_NOTIFICATION"
    by (simp add: example_aoe_parsed DEVICE_NOTIFICATION_def)
  have inv2: "invokeId_hdr (AoEHeader_of_bytes ?aoe) = 2"
    by (simp add: example_aoe_parsed)
  have differ: "invokeId (queue ?c ! 0) \<noteq> invokeId_hdr (AoEHeader_of_bytes ?aoe)"
    by (simp add: example_waiting inv2)
  have fr: "frame (queue ?c ! 0) = Frame_new 4096"
    by (simp add: waiting_conn_def fresh_conn_def AmsResponse_new_def)
  from mismatched_reply_drained [OF example_delivers refl cmd example_slot differ]
    example_delivers [of 4 2] inv2 fr
  show ?thesis by (auto simp: example_waiting)
qed

text \<open>
  C8. A reply frame (a frame that is not a DEVICE_NOTIFICATION, which goes to a
  dispatcher before any slot is looked at) arrives whose command id is none of the
  eight accepted reply opcodes and whose invoke id is the one in the slot of its target
  port. The reader clears the slot's frame and notifies the slot all the same: the
  frame is empty, the slot's invoke id is 0 and the caller's wait returns true. The
  warning is logged, exactly the frame is consumed, and the loop goes on.
\<close>

theorem unknown_command_reply:
  assumes "delivers c tcp aoe payload rest"
    and "h = AoEHeader_of_bytes aoe"
    and "cmdId h \<noteq> DEVICE_NOTIFICATION"
    and "\<not> accepted_reply (cmdId h)"
    and "slot_index (targetPort h) c = Some i"
    and "invokeId (queue c ! i) = invokeId_hdr h"
  shows "\<exists>c'. Recv_body c = Some (Inr c') \<and> Recv c = Recv c' \<and>
           frame_data (frame (queue c' ! i)) = [] \<and>
           size_of_frame (frame (queue c' ! i)) = 0 \<and>
           invokeId (queue c' ! i) = 0 \<and>
           notified (queue c' ! i) = notified (queue c ! i) + 1 \<and>
           Wait (queue c' ! i) \<and>
           last (log c') = Unkown_AMS_command_id \<and>
           stream (socket c') = rest"
proof -
  from assms(5) have i: "i < length (queue c)" by (rule slot_index_bound)
  let ?f = "if length payload \<le> capacity (frame (queue c ! i))
            then limit (length payload) (rawData_store payload (frame (queue c ! i)))
            else clear (frame (queue c ! i))"
  let ?l = "log c @ (if length payload \<le> capacity (frame (queue c ! i)) then []
            else [Frame_to_long (length payload) (capacity (frame (queue c ! i)))])"
  from Recv_body_reply [OF assms(1,2,3,5,6)] assms(4)
  have "\<exists>s'. stream s' = rest \<and> Recv_body c = Some (Inr (c\<lparr>socket := s',
        queue := (queue c)[i := Notify ((queue c ! i)\<lparr>frame := clear ?f\<rparr>)],
        log := ?l @ [Unkown_AMS_command_id]\<rparr>))"
    by (auto simp: Let_def)
  then obtain s' where s': "stream s' = rest"
    and step: "Recv_body c = Some (Inr (c\<lparr>socket := s',
        queue := (queue c)[i := Notify ((queue c ! i)\<lparr>frame := clear ?f\<rparr>)],
        log := ?l @ [Unkown_AMS_command_id]\<rparr>))"
    by blast
  from step i s' Recv_continues [OF step] show ?thesis
    by (simp add: Notify_def Wait_def frame_data_clear size_of_frame_clear)
qed

theorem unknown_command_reply_witness:
  "delivers (waiting_conn [example_tcp 36 0 @ take 10 (example_aoe 0x30 0x75 10 4 0 1),
      drop 10 (example_aoe 0x30 0x75 10 4 0 1) @ [1, 0, 0, 0]])
     (example_tcp 36 0) (example_aoe 0x30 0x75 10 4 0 1) [1, 0, 0, 0] [] \<and>
   cmdId (AoEHeader_of_bytes (example_aoe 0x30 0x75 10 4 0 1)) = 10 \<and>
   (\<exists>c'. Recv_body (waiting_conn [example_tcp 36 0 @ take 10 (example_aoe 0x30 0x75 10 4 0 1),
      drop 10 (example_aoe 0x30 0x75 10 4 0 1) @ [1, 0, 0, 0]]) = Some (Inr c') \<and>
      frame_data (frame (queue c' ! 0)) = [] \<and>
      invokeId (queue c' ! 0) = 0 \<and> notified (queue c' ! 0) = 1 \<and> Wait (queue c' ! 0) \<and>
      stream (socket c') = [])"
proof -
  let ?aoe = "example_aoe 0x30 0x75 10 4 0 1"
  let ?c = "waiting_conn [example_tcp 36 0 @ take 10 ?aoe, drop 10 ?aoe @ [1, 0, 0, 0]]"
  have cmd10: "cmdId (AoEHeader_of_bytes ?aoe) = 10"
    by (simp add: example_aoe_parsed)
  have cmd: "cmdId (AoEHeader_of_bytes ?aoe) \<noteq> DEVICE_NOTIFICATION"
    by (simp add: cmd10 DEVICE_NOTIFICATION_def)
  have nacc: "\<not> accepted_reply (cmdId (AoEHeader_of_bytes ?aoe))"
    by (simp add: cmd10 accepted_reply_def READ_DEVICE_INFO_def READ_def
      WRITE_def READ_STATE_def WRITE_CONTROL_def ADD_DEVICE_NOTIFICATION_def
      DEL_DEVICE_NOTIFICATION_def READ_WRITE_def)
  have match: "invokeId (queue ?c ! 0) = invokeId_hdr (AoEHeader_of_bytes ?aoe)"
    by (simp add: example_waiting example_aoe_parsed)
  from unknown_command_reply [OF example_delivers refl cmd nacc example_slot match]
    example_delivers [of 10 1] cmd10
  show ?thesis by (auto simp: example_waiting)
qed

subsection \<open>Writing a request\<close>

lemma length_le_bytes [simp]: "length (le_bytes n v) = n"
  by (simp add: le_bytes_def)

lemma length_AoEHeader_bytes: "length (AoEHeader_bytes h) = sizeof_AoEHeader"
  by (simp add: AoEHeader_bytes_def AmsNetId_bytes_def sizeof_AoEHeader_def)

lemma length_AmsTcpHeader_bytes: "length (AmsTcpHeader_bytes n) = sizeof_AmsTcpHeader"
  by (simp add: AmsTcpHeader_bytes_def sizeof_AmsTcpHeader_def)

lemma prepend_Inr:
  "length bs \<le> start f \<Longrightarrow>
   prepend bs f = Inr (f\<lparr>storage := store_at (start f - length bs) bs (storage f),
                          start := start f - length bs\<rparr>)"
  by (simp add: prepend_def)

lemma GetInvokeId_fields:
  "socket (snd (GetInvokeId c)) = socket c"
  "queue (snd (GetInvokeId c)) = queue c"
  "log (snd (GetInvokeId c)) = log c"
  "cas_spurious (snd (GetInvokeId c)) = cas_spurious c"
  "declared (snd (GetInvokeId c)) = declared c"
  "dispatchers (snd (GetInvokeId c)) = dispatchers c"
  "dispatcherList (snd (GetInvokeId c)) = dispatcherList c"
  by (simp_all add: GetInvokeId_eq)

lemma slot_index_GetInvokeId [simp]:
  "slot_index p (snd (GetInvokeId c)) = slot_index p c"
  by (simp add: slot_index_def GetInvokeId_fields)

lemma spurious_GetInvokeId [simp]: "spurious (snd (GetInvokeId c)) = spurious c"
  by (simp add: spurious_def GetInvokeId_fields)

text \<open>What \<open>Reserve\<close> returns and leaves, for a port with a slot.\<close>

lemma Reserve_eq:
  assumes "slot_index p c = Some i"
  shows "Reserve id' p c =
     (if invokeId (queue c ! i) = 0 \<and> \<not> spurious c
      then Inr (Some i, c\<lparr>cas_spurious := tl (cas_spurious c),
                           queue := (queue c)[i := (queue c ! i)\<lparr>invokeId := id'\<rparr>]\<rparr>)
      else Inr (None, c\<lparr>cas_spurious := tl (cas_spurious c),
                        log := log c @ [Port_already_in_use p (invokeId (queue c ! i))]\<rparr>))"
  using assms by (simp add: Reserve_def compare_exchange_weak_def LOG_def Let_def)

text \<open>\<open>Write\<close> up to the reservation, for a request with room for both headers.\<close>

lemma Write_eq:
  assumes room: "sizeof_AoEHeader + sizeof_AmsTcpHeader \<le> start request"
  shows "\<exists>request2. size_of_frame request2 = end_pos request - (start request - 38) \<and>
     Write request destAddr srcAddr cmd c =
       (case Reserve (fst (GetInvokeId c)) (port srcAddr) (snd (GetInvokeId c)) of
          Inl e \<Rightarrow> Inl e
        | Inr (None, c2) \<Rightarrow> Inr (None, request2, c2)
        | Inr (Some response, c2) \<Rightarrow>
            (let (written, s') = socket_write (frame_data request2) (socket c2);
                 c3 = c2\<lparr>socket := s'\<rparr>
             in if size_of_frame request2 \<noteq> written
                then Inr (None, request2, Release response c3)
                else Inr (Some response, request2, c3)))"
proof -
  obtain id' c1 where g: "GetInvokeId c = (id', c1)" by (cases "GetInvokeId c")
  let ?h = "AoEHeader_request (declared c) (netId destAddr) (port destAddr)
              (netId srcAddr) (port srcAddr) cmd (word_of_nat (size_of_frame request)) id'"
  let ?r1 = "request\<lparr>storage := store_at (start request - 32) (AoEHeader_bytes ?h) (storage request),
                       start := start request - 32\<rparr>"
  let ?t = "AmsTcpHeader_bytes (word_of_nat (size_of_frame ?r1))"
  let ?r2 = "?r1\<lparr>storage := store_at (start ?r1 - 6) ?t (storage ?r1), start := start ?r1 - 6\<rparr>"
  from room have p1: "prepend (AoEHeader_bytes ?h) request = Inr ?r1"
    by (simp add: prepend_Inr length_AoEHeader_bytes sizeof_AoEHeader_def)
  from room have p2: "prepend ?t ?r1 = Inr ?r2"
    by (simp add: prepend_Inr length_AmsTcpHeader_bytes sizeof_AmsTcpHeader_def
        sizeof_AoEHeader_def)
  have inv: "invokeId_hdr ?h = id'" by (simp add: AoEHeader_request_def)
  from room have "size_of_frame ?r2 = end_pos request - (start request - 38)"
    by (simp add: size_of_frame_def sizeof_AmsTcpHeader_def sizeof_AoEHeader_def)
  moreover have "Write request destAddr srcAddr cmd c =
       (case Reserve id' (port srcAddr) c1 of
          Inl e \<Rightarrow> Inl e
        | Inr (None, c2) \<Rightarrow> Inr (None, ?r2, c2)
        | Inr (Some response, c2) \<Rightarrow>
            (let (written, s') = socket_write (frame_data ?r2) (socket c2);
                 c3 = c2\<lparr>socket := s'\<rparr>
             in if size_of_frame ?r2 \<noteq> written
                then Inr (None, ?r2, Release response c3)
                else Inr (Some response, ?r2, c3)))"
    unfolding Write_def g using p1 p2 inv
    by (simp add: Let_def split: sum.split prod.split option.split)
  ultimately show ?thesis using g by (intro exI [of _ ?r2]) simp
qed

lemma socket_write_short:
  "accepts_next s < n \<Longrightarrow> fst (socket_write bs s) \<noteq> n"
  by (auto simp: socket_write_def accepts_next_def Let_def split: list.splits)

lemma socket_write_bound:
  "length (tx (snd (socket_write bs s))) = length (tx s) + fst (socket_write bs s)"
  by (auto simp: socket_write_def Let_def split: list.splits)

lemma example_src_slot:
  "slot_index (port example_src) (waiting_conn segs) = Some 0"
  "slot_index (port example_src) fresh_conn = Some 0"
  "slot_index (port example_src) spurious_conn = Some 0"
  "slot_index (port example_src) short_write_conn = Some 0"
  by (simp_all add: slot_index_def example_src_def waiting_conn_def fresh_conn_def
      example_declared_def spurious_conn_def short_write_conn_def)

lemma example_request_room:
  "sizeof_AoEHeader + sizeof_AmsTcpHeader \<le> start (Frame_new 38)"
  "start (Frame_new 38) \<le> end_pos (Frame_new 38)"
  "size_of_frame (Frame_new 38) = 0"
  by (simp_all add: Frame_new_def sizeof_AoEHeader_def sizeof_AmsTcpHeader_def size_of_frame_def)

text \<open>
  A busy port, and what \<open>Reserve\<close> returns. \<open>Write\<close> on a local port whose slot is
  already reserved (its invoke id is not 0) returns null, and nothing is given to the
  socket: the socket and every slot are as before, and the port is logged as in use.
  \<open>Reserve\<close> compares the slot's invoke id with 0 and exchanges it for the new id: it
  returns null whenever the slot is reserved, and on a free slot it stores the id and
  returns the slot when the compare-and-exchange does not fail spuriously.
\<close>

lemma Write_busy_port:
  assumes "slot_index (port srcAddr) c = Some i"
    and "sizeof_AoEHeader + sizeof_AmsTcpHeader \<le> start request"
  shows "(invokeId (queue c ! i) \<noteq> 0 \<longrightarrow>
          (\<exists>request' c'. Write request destAddr srcAddr cmd c = Inr (None, request', c') \<and>
                 socket c' = socket c \<and> queue c' = queue c \<and>
                 log c' = log c @ [Port_already_in_use (port srcAddr) (invokeId (queue c ! i))])) \<and>
         Reserve id' (port srcAddr) c =
           (if invokeId (queue c ! i) = 0 \<and> \<not> spurious c
            then Inr (Some i, c\<lparr>cas_spurious := tl (cas_spurious c),
                                 queue := (queue c)[i := (queue c ! i)\<lparr>invokeId := id'\<rparr>]\<rparr>)
            else Inr (None, c\<lparr>cas_spurious := tl (cas_spurious c),
                              log := log c @
                                [Port_already_in_use (port srcAddr) (invokeId (queue c ! i))]\<rparr>))"
proof -
  from Write_eq [OF assms(2), of destAddr srcAddr cmd c]
  obtain request2 where w: "Write request destAddr srcAddr cmd c =
       (case Reserve (fst (GetInvokeId c)) (port srcAddr) (snd (GetInvokeId c)) of
          Inl e \<Rightarrow> Inl e
        | Inr (None, c2) \<Rightarrow> Inr (None, request2, c2)
        | Inr (Some response, c2) \<Rightarrow>
            (let (written, s') = socket_write (frame_data request2) (socket c2);
                 c3 = c2\<lparr>socket := s'\<rparr>
             in if size_of_frame request2 \<noteq> written
                then Inr (None, request2, Release response c3)
                else Inr (Some response, request2, c3)))"
    by blast
  have idx: "slot_index (port srcAddr) (snd (GetInvokeId c)) = Some i"
    using assms(1) by simp
  show ?thesis
    using w by (simp add: Reserve_eq [OF idx] Reserve_eq [OF assms(1)] GetInvokeId_fields)
qed

lemma Write_busy_port_example:
  "slot_index (port example_src) (waiting_conn []) = Some 0 \<and>
   sizeof_AoEHeader + sizeof_AmsTcpHeader \<le> start (Frame_new 38) \<and>
   invokeId (queue (waiting_conn []) ! 0) = 1 \<and>
   (\<exists>request' c'. Write (Frame_new 38) example_dest example_src READ_STATE (waiting_conn []) =
       Inr (None, request', c') \<and>
     tx (socket c') = [] \<and> queue c' = queue (waiting_conn []) \<and>
     log c' = [Port_already_in_use 30000 1])"
  using Write_busy_port [OF example_src_slot(1) example_request_room(1),
      of "[]" example_dest READ_STATE 0]
    example_src_slot(1) [of "[]"] example_request_room(1)
  by (auto simp: example_waiting) (simp_all add: waiting_conn_def example_src_def)

text \<open>
  C2 does not hold of the code on every target. A reservation is meant to fail exactly
  when the slot is already reserved: the warning of \<open>Reserve\<close> reads "already in
  use". But \<open>Reserve\<close> calls \<^verbatim>\<open>compare_exchange_weak\<close> once and does not retry. Where
  the weak form can fail spuriously (targets that build it from load-linked and
  store-conditional instructions, such as ARM, POWER and RISC-V; not x86), such a
  failure on the free slot of port 30000 makes \<open>Reserve\<close> return null and log the port
  as in use as 0, the slot stays free, and \<open>Write\<close> returns null for a port that
  is not busy.
\<close>

theorem Reserve_spurious_failure:
  "slot_index (port example_src) spurious_conn = Some 0 \<and>
   invokeId (queue spurious_conn ! 0) = 0 \<and>
   spurious spurious_conn \<and>
   Reserve 1 (port example_src) spurious_conn =
     Inr (None, spurious_conn\<lparr>cas_spurious := [], log := [Port_already_in_use 30000 0]\<rparr>) \<and>
   map_sum id fst (Write (Frame_new 38) example_dest example_src READ_STATE spurious_conn) =
     Inr None"
proof -
  have free: "invokeId (queue spurious_conn ! 0) = 0"
    and sp: "spurious spurious_conn"
    and cs: "tl (cas_spurious spurious_conn) = []"
    and lg: "log spurious_conn = []"
    by (simp_all add: spurious_conn_def fresh_conn_def spurious_def AmsResponse_new_def)
  have p: "port example_src = 30000"
    by (simp add: example_src_def)
  have res: "Reserve id' (port example_src) spurious_conn =
     Inr (None, spurious_conn\<lparr>cas_spurious := [], log := [Port_already_in_use 30000 0]\<rparr>)" for id'
    unfolding Reserve_eq [OF example_src_slot(3)] by (simp add: sp free cs lg p)
  have idx: "slot_index (port example_src) (snd (GetInvokeId spurious_conn)) = Some 0"
    by (simp add: example_src_slot(3))
  from Write_eq [OF example_request_room(1), of example_dest example_src READ_STATE spurious_conn]
  have "map_sum id fst (Write (Frame_new 38) example_dest example_src READ_STATE spurious_conn) =
     Inr None"
    by (auto simp: Reserve_eq [OF idx] sp GetInvokeId_fields)
  with free sp res [of 1] example_src_slot(3) show ?thesis
    by simp
qed


text \<open>
  C3. The slot of the source port is free and is reserved by \<open>Write\<close>, and the socket
  takes fewer bytes than the frame with its two headers has. Then \<open>Write\<close> returns
  null, fewer bytes than the frame have gone to the peer, and the slot is released: its
  invoke id is 0 and its frame is reset. No other slot changes.
\<close>

theorem Write_short_releases:
  assumes "slot_index (port srcAddr) c = Some i"
    and "sizeof_AoEHeader + sizeof_AmsTcpHeader \<le> start request"
    and "start request \<le> end_pos request"
    and "invokeId (queue c ! i) = 0"
    and "\<not> spurious c"
    and "accepts_next (socket c) < size_of_frame request + sizeof_AoEHeader + sizeof_AmsTcpHeader"
  shows "\<exists>request' c'. Write request destAddr srcAddr cmd c = Inr (None, request', c') \<and>
           size_of_frame request' = size_of_frame request + sizeof_AoEHeader + sizeof_AmsTcpHeader \<and>
           length (tx (socket c')) < length (tx (socket c)) + size_of_frame request' \<and>
           invokeId (queue c' ! i) = 0 \<and>
           frame (queue c' ! i) = reset (frame (queue c ! i)) \<and>
           queue c' =
             (queue c)[i := (queue c ! i)\<lparr>frame := reset (frame (queue c ! i)), invokeId := 0\<rparr>]"
proof -
  from Write_eq [OF assms(2), of destAddr srcAddr cmd c]
  obtain request2 where sz: "size_of_frame request2 = end_pos request - (start request - 38)"
    and w: "Write request destAddr srcAddr cmd c =
       (case Reserve (fst (GetInvokeId c)) (port srcAddr) (snd (GetInvokeId c)) of
          Inl e \<Rightarrow> Inl e
        | Inr (None, c2) \<Rightarrow> Inr (None, request2, c2)
        | Inr (Some response, c2) \<Rightarrow>
            (let (written, s') = socket_write (frame_data request2) (socket c2);
                 c3 = c2\<lparr>socket := s'\<rparr>
             in if size_of_frame request2 \<noteq> written
                then Inr (None, request2, Release response c3)
                else Inr (Some response, request2, c3)))"
    by blast
  from sz assms(2,3) have sz': "size_of_frame request2 =
      size_of_frame request + sizeof_AoEHeader + sizeof_AmsTcpHeader"
    by (simp add: size_of_frame_def sizeof_AoEHeader_def sizeof_AmsTcpHeader_def)
  have idx: "slot_index (port srcAddr) (snd (GetInvokeId c)) = Some i"
    using assms(1) by simp
  from assms(1) have i: "i < length (queue c)" by (rule slot_index_bound)
  let ?w = "socket_write (frame_data request2) (socket c)"
  from assms(6) sz' have short: "fst ?w \<noteq> size_of_frame request2"
    by (simp add: socket_write_short)
  have "fst ?w \<le> accepts_next (socket c)"
    by (auto simp: socket_write_def accepts_next_def Let_def split: list.splits)
  with assms(6) sz' socket_write_bound [of "frame_data request2" "socket c"]
  have sent: "length (tx (snd ?w)) < length (tx (socket c)) + size_of_frame request2"
    by simp
  let ?c2 = "(snd (GetInvokeId c))\<lparr>cas_spurious := tl (cas_spurious c),
      queue := (queue c)[i := (queue c ! i)\<lparr>invokeId := fst (GetInvokeId c)\<rparr>]\<rparr>"
  have "Write request destAddr srcAddr cmd c =
      Inr (None, request2, Release i (?c2\<lparr>socket := snd ?w\<rparr>))"
    using w assms(4,5) short
    by (simp add: Reserve_eq [OF idx] GetInvokeId_fields split_beta Let_def)
  moreover have "queue (Release i (?c2\<lparr>socket := snd ?w\<rparr>)) =
      (queue c)[i := (queue c ! i)\<lparr>frame := reset (frame (queue c ! i)), invokeId := 0\<rparr>]"
    using i assms(4) by (simp add: Release_def)
  moreover have "socket (Release i (?c2\<lparr>socket := snd ?w\<rparr>)) = snd ?w"
    by (simp add: Release_def)
  ultimately show ?thesis
    using sz' sent i assms(4) by simp
qed

theorem Write_short_releases_witness:
  "slot_index (port example_src) short_write_conn = Some 0 \<and>
   invokeId (queue short_write_conn ! 0) = 0 \<and>
   accepts_next (socket short_write_conn) = 10 \<and>
   (\<exists>request' c'. Write (Frame_new 38) example_dest example_src READ_STATE short_write_conn =
       Inr (None, request', c') \<and> size_of_frame request' = 38 \<and>
     length (tx (socket c')) < 38 \<and> invokeId (queue c' ! 0) = 0 \<and>
     frame (queue c' ! 0) = reset (Frame_new 4096))"
proof -
  have free: "invokeId (queue short_write_conn ! 0) = 0"
    and fr: "frame (queue short_write_conn ! 0) = Frame_new 4096"
    and ns: "\<not> spurious short_write_conn"
    and acc: "accepts_next (socket short_write_conn) = 10"
    and tx0: "tx (socket short_write_conn) = []"
    by (simp_all add: short_write_conn_def fresh_conn_def AmsResponse_new_def spurious_def
        accepts_next_def)
  have short: "accepts_next (socket short_write_conn) <
      size_of_frame (Frame_new 38) + sizeof_AoEHeader + sizeof_AmsTcpHeader"
    by (simp add: acc example_request_room sizeof_AoEHeader_def sizeof_AmsTcpHeader_def)
  from Write_short_releases [OF example_src_slot(4) example_request_room(1,2) free ns short,
      of example_dest READ_STATE]
    example_src_slot(4) free acc
  show ?thesis
    by (auto simp: fr tx0 example_request_room sizeof_AoEHeader_def sizeof_AmsTcpHeader_def)
qed

subsection \<open>The slot's invoke id\<close>

lemma Reserve_Inr_slot:
  "Reserve id' p c = Inr (r, c') \<Longrightarrow> \<exists>k. slot_index p c = Some k"
  by (cases "slot_index p c") (simp_all add: Reserve_def)

text \<open>
  C9. A slot is free exactly when its invoke id is 0 (the code has no other mark:
  \<open>Reserve\<close> expects 0 under the name \<^verbatim>\<open>isFree\<close> and \<open>Wait\<close> waits for
  \<^verbatim>\<open>!invokeId\<close>), and every operation on a slot keeps to that. When \<open>Reserve\<close> changes
  the invoke id of a slot, the slot is the one it returns, its invoke id was 0 and is
  now the new id, which is not 0; frame and notification count stay. \<open>Release\<close> stores 0
  and resets the frame, of its slot only. \<open>Notify\<close> stores 0 and wakes the waiters
  (the count of notifications grows by one, and a wait finds its predicate true), leaving
  the frame. So no operation replaces an invoke id that is not 0 by another one that is
  not 0.
\<close>

theorem ResponseSlot_transitions:
  assumes "i < length (queue c)"
  shows "(\<forall>r c'. Reserve id' p c = Inr (r, c') \<longrightarrow>
           length (queue c') = length (queue c) \<and>
           (invokeId (queue c' ! i) = invokeId (queue c ! i) \<or>
            invokeId (queue c ! i) = 0 \<and> invokeId (queue c' ! i) = id' \<and> id' \<noteq> 0 \<and>
            r = Some i) \<and>
           (r = Some i \<longrightarrow> invokeId (queue c ! i) = 0 \<and> invokeId (queue c' ! i) = id') \<and>
           frame (queue c' ! i) = frame (queue c ! i) \<and>
           notified (queue c' ! i) = notified (queue c ! i)) \<and>
         queue (Release j c) ! i =
           (if j = i then (queue c ! i)\<lparr>frame := reset (frame (queue c ! i)), invokeId := 0\<rparr>
            else queue c ! i) \<and>
         invokeId (queue (Release i c) ! i) = 0 \<and>
         frame (queue (Release i c) ! i) = reset (frame (queue c ! i)) \<and>
         invokeId (Notify (queue c ! i)) = 0 \<and>
         frame (Notify (queue c ! i)) = frame (queue c ! i) \<and>
         notified (Notify (queue c ! i)) = notified (queue c ! i) + 1 \<and>
         Wait (Notify (queue c ! i))"
proof -
  have res: "length (queue c') = length (queue c) \<and>
         (invokeId (queue c' ! i) = invokeId (queue c ! i) \<or>
          invokeId (queue c ! i) = 0 \<and> invokeId (queue c' ! i) = id' \<and> id' \<noteq> 0 \<and>
          r = Some i) \<and>
         (r = Some i \<longrightarrow> invokeId (queue c ! i) = 0 \<and> invokeId (queue c' ! i) = id') \<and>
         frame (queue c' ! i) = frame (queue c ! i) \<and>
         notified (queue c' ! i) = notified (queue c ! i)"
    if reserve: "Reserve id' p c = Inr (r, c')" for r c'
  proof -
    from Reserve_Inr_slot [OF reserve] obtain k where k: "slot_index p c = Some k" by blast
    then have kk: "k < length (queue c)" by (rule slot_index_bound)
    show ?thesis
      using reserve assms kk unfolding Reserve_eq [OF k]
      by (cases "i = k") (auto split: if_splits)
  qed
  have rel: "queue (Release j c) ! i =
           (if j = i then (queue c ! i)\<lparr>frame := reset (frame (queue c ! i)), invokeId := 0\<rparr>
            else queue c ! i)" for j
    using assms by (simp add: Release_def)
  from res rel [of j] rel [of i] show ?thesis
    by (simp add: Notify_def Wait_def)
qed

theorem ResponseSlot_transitions_witness:
  "Reserve 7 30000 fresh_conn =
     Inr (Some 0, fresh_conn\<lparr>cas_spurious := [],
            queue := (queue fresh_conn)[0 := AmsResponse_new\<lparr>invokeId := 7\<rparr>]\<rparr>) \<and>
   (0::nat) < length (queue fresh_conn) \<and>
   invokeId (queue fresh_conn ! 0) = 0 \<and>
   invokeId ((queue fresh_conn)[0 := AmsResponse_new\<lparr>invokeId := 7\<rparr>] ! 0) = 7 \<and>
   invokeId (queue (Release 0 fresh_conn) ! 0) = 0 \<and>
   Wait (Notify (queue fresh_conn ! 0))"
proof -
  have idx: "slot_index 30000 fresh_conn = Some 0"
    by (simp add: slot_index_def fresh_conn_def example_declared_def)
  have r: "Reserve 7 30000 fresh_conn =
     Inr (Some 0, fresh_conn\<lparr>cas_spurious := [],
            queue := (queue fresh_conn)[0 := AmsResponse_new\<lparr>invokeId := 7\<rparr>]\<rparr>)"
    unfolding Reserve_eq [OF idx]
    by (simp add: fresh_conn_def spurious_def AmsResponse_new_def)
  have l: "(0::nat) < length (queue fresh_conn)"
    by (simp add: fresh_conn_def)
  from ResponseSlot_transitions [OF l, of 7 30000 0] r l show ?thesis
    by simp
qed

subsection \<open>The dispatcher list\<close>

lemma Get_eq:
  "Get vc dl =
     (list_map dl vc,
      dl\<lparr>held := held dl, trace := trace dl @ [Lock, Find vc (held dl + 1), Unlock]\<rparr>)"
  by (simp add: Get_def lock_guard_def unlock_guard_def Let_def)

lemma Add_hit:
  "list_map (dispatcherList c) vc = Some p \<Longrightarrow>
   Add vc c =
     (p, c\<lparr>dispatcherList := (dispatcherList c)
            \<lparr>held := held (dispatcherList c),
             trace := trace (dispatcherList c) @
               [Lock, Find vc (held (dispatcherList c) + 1), Unlock]\<rparr>\<rparr>)"
  by (simp add: Add_def Get_eq)

lemma Add_miss:
  "list_map (dispatcherList c) vc = None \<Longrightarrow>
   Add vc c =
     (length (dispatchers c),
      c\<lparr>dispatcherList := (dispatcherList c)
           \<lparr>list_map := (list_map (dispatcherList c))(vc \<mapsto> length (dispatchers c)),
            held := held (dispatcherList c),
            trace := trace (dispatcherList c) @
              [Lock, Find vc (held (dispatcherList c) + 1), Unlock,
               Lock, Emplaced vc (held (dispatcherList c) + 1), Unlock]\<rparr>,
         dispatchers := dispatchers c @
           [NotificationDispatcher_new (ring_size (declared c)) (snd vc) (fst vc)]\<rparr>)"
  by (simp add: Add_def Get_eq lock_guard_def unlock_guard_def map_emplace_def Let_def)

lemma Add_keeps:
  "list_map (dispatcherList c) k = Some q \<Longrightarrow>
   list_map (dispatcherList (snd (Add vc c))) k = Some q"
  by (cases "list_map (dispatcherList c) vc") (auto simp: Add_miss Add_hit)

lemma Add_result:
  "list_map (dispatcherList (snd (Add vc c))) vc = Some (fst (Add vc c))"
  by (cases "list_map (dispatcherList c) vc") (auto simp: Add_miss Add_hit)

lemma Add_known:
  "list_map (dispatcherList c) vc = Some p \<Longrightarrow> fst (Add vc c) = p"
  by (simp add: Add_hit)

lemma CreateNotifyMapping_Add:
  "snd (fst (CreateNotifyMapping p addr pFunc user len h c)) = fst (Add (p, addr) c)"
  "dispatcherList (snd (CreateNotifyMapping p addr pFunc user len h c)) =
     dispatcherList (snd (Add (p, addr) c))"
  by (simp_all add: CreateNotifyMapping_def split_beta Let_def)

lemma CreateNotifyMapping_keeps:
  "list_map (dispatcherList c) k = Some q \<Longrightarrow>
   list_map (dispatcherList (snd (CreateNotifyMapping p addr pFunc user len h c))) k = Some q"
  by (simp add: CreateNotifyMapping_Add Add_keeps)

lemma CreateNotifyMappings_keep:
  "list_map (dispatcherList c) k = Some q \<Longrightarrow>
   list_map (dispatcherList
     (fold (\<lambda>(p, addr, pFunc, user, len, h) c. snd (CreateNotifyMapping p addr pFunc user len h c))
        calls c)) k = Some q"
proof (induction calls arbitrary: c)
  case Nil
  then show ?case by simp
next
  case (Cons a calls)
  obtain p addr pFunc user len h where a: "a = (p, addr, pFunc, user, len, h)"
    by (cases a) auto
  from Cons.prems have "list_map (dispatcherList
      (snd (CreateNotifyMapping p addr pFunc user len h c))) k = Some q"
    by (rule CreateNotifyMapping_keeps)
  from Cons.IH [OF this] show ?case by (simp add: a)
qed

text \<open>
  C10, as the code has it. Looking a dispatcher up or creating it is idempotent: two
  calls of \<open>CreateNotifyMapping\<close> with the same local port and remote address, with
  any calls of it in between, return the same dispatcher, and so do two calls of
  \<open>Add\<close>. \<open>Add\<close> never replaces an entry of the map, and what it returns is the
  map's entry afterwards. Its first step is \<open>Get\<close>, which holds the mutex during its
  lookup and releases it; only when nothing was found \<open>Add\<close> takes the mutex again
  and inserts with \<^verbatim>\<open>emplace\<close>, which stores nothing when the key is there.
\<close>

theorem dispatcher_lookup_or_create:
  "snd (fst (CreateNotifyMapping p addr pFunc2 user2 len2 h2
      (fold (\<lambda>(p', addr', pFunc', user', len', h') c'.
               snd (CreateNotifyMapping p' addr' pFunc' user' len' h' c'))
         between (snd (CreateNotifyMapping p addr pFunc1 user1 len1 h1 c))))) =
     snd (fst (CreateNotifyMapping p addr pFunc1 user1 len1 h1 c)) \<and>
   fst (Add vc (snd (Add vc c))) = fst (Add vc c) \<and>
   (list_map (dispatcherList c) k = Some q \<longrightarrow>
      list_map (dispatcherList (snd (Add vc c))) k = Some q) \<and>
   list_map (dispatcherList (snd (Add vc c))) vc = Some (fst (Add vc c)) \<and>
   trace (dispatcherList (snd (Add vc c))) =
     trace (dispatcherList c) @ [Lock, Find vc (held (dispatcherList c) + 1), Unlock] @
     (if list_map (dispatcherList c) vc = None
      then [Lock, Emplaced vc (held (dispatcherList c) + 1), Unlock] else []) \<and>
   held (dispatcherList (snd (Add vc c))) = held (dispatcherList c) \<and>
   snd (map_emplace vc q (list_map (dispatcherList c))) k =
     (if k = vc \<and> list_map (dispatcherList c) vc = None then Some q
      else list_map (dispatcherList c) k)"
proof -
  let ?c1 = "snd (CreateNotifyMapping p addr pFunc1 user1 len1 h1 c)"
  let ?d = "snd (fst (CreateNotifyMapping p addr pFunc1 user1 len1 h1 c))"
  have "list_map (dispatcherList ?c1) (p, addr) = Some ?d"
    by (simp add: CreateNotifyMapping_Add Add_result)
  then have "list_map (dispatcherList
     (fold (\<lambda>(p', addr', pFunc', user', len', h') c'.
               snd (CreateNotifyMapping p' addr' pFunc' user' len' h' c')) between ?c1))
       (p, addr) = Some ?d"
    by (rule CreateNotifyMappings_keep)
  then have first: "snd (fst (CreateNotifyMapping p addr pFunc2 user2 len2 h2
      (fold (\<lambda>(p', addr', pFunc', user', len', h') c'.
               snd (CreateNotifyMapping p' addr' pFunc' user' len' h' c')) between ?c1))) = ?d"
    by (simp add: CreateNotifyMapping_Add Add_known)
  have second: "fst (Add vc (snd (Add vc c))) = fst (Add vc c)"
    by (simp add: Add_known Add_result)
  have tr: "trace (dispatcherList (snd (Add vc c))) =
     trace (dispatcherList c) @ [Lock, Find vc (held (dispatcherList c) + 1), Unlock] @
     (if list_map (dispatcherList c) vc = None
      then [Lock, Emplaced vc (held (dispatcherList c) + 1), Unlock] else [])"
    and hd: "held (dispatcherList (snd (Add vc c))) = held (dispatcherList c)"
    by (cases "list_map (dispatcherList c) vc"; simp add: Add_miss Add_hit)+
  have em: "snd (map_emplace vc q (list_map (dispatcherList c))) k =
     (if k = vc \<and> list_map (dispatcherList c) vc = None then Some q
      else list_map (dispatcherList c) k)"
    by (auto simp: map_emplace_def split: option.splits)
  from first second tr hd em show ?thesis
    by (simp add: Add_keeps Add_result)
qed

lemma Add_fresh_conn:
  "Add example_vc fresh_conn =
     (0, fresh_conn\<lparr>dispatcherList :=
            \<lparr>list_map = [example_vc \<mapsto> 0], held = 0,
             trace = [Lock, Find example_vc 1, Unlock, Lock, Emplaced example_vc 1, Unlock]\<rparr>,
          dispatchers := [NotificationDispatcher_new 8 example_dest 30000]\<rparr>)"
proof -
  have "list_map (dispatcherList fresh_conn) example_vc = None"
    by (simp add: fresh_conn_def)
  from Add_miss [OF this] show ?thesis
    by (simp add: fresh_conn_def example_vc_def example_declared_def)
qed

theorem dispatcher_lookup_or_create_witness:
  "list_map (dispatcherList (snd (Add example_vc fresh_conn))) example_vc = Some 0 \<and>
   list_map (dispatcherList (snd (Add other_vc (snd (Add example_vc fresh_conn))))) example_vc =
     Some 0 \<and>
   fst (Add example_vc (snd (Add example_vc fresh_conn))) = 0"
proof -
  have a: "list_map (dispatcherList (snd (Add example_vc fresh_conn))) example_vc = Some 0"
    by (simp add: Add_fresh_conn)
  from dispatcher_lookup_or_create [of _ _ _ _ _ _ "[]" _ _ _ _ "snd (Add example_vc fresh_conn)"
      other_vc example_vc 0] a
  have "list_map (dispatcherList (snd (Add other_vc (snd (Add example_vc fresh_conn)))))
      example_vc = Some 0"
    by blast
  moreover have "fst (Add example_vc (snd (Add example_vc fresh_conn))) = 0"
    by (simp add: Add_known a)
  ultimately show ?thesis using a by simp
qed

text \<open>
  C10 as it is stated calls the first step an unlocked \<open>Get\<close>. \<open>Get\<close> takes the
  mutex before it looks the key up: on a connection whose mutex is not held, the lookup
  of \<open>Add\<close> runs with the mutex held once.
\<close>

theorem Get_locked_counterexample:
  "held (dispatcherList fresh_conn) = 0 \<and>
   trace (dispatcherList fresh_conn) = [] \<and>
   take 3 (trace (dispatcherList (snd (Add example_vc fresh_conn)))) =
     [Lock, Find example_vc 1, Unlock] \<and>
   trace (snd (Get example_vc (dispatcherList fresh_conn))) = [Lock, Find example_vc 1, Unlock]"
  by (simp add: Add_fresh_conn Get_eq) (simp add: fresh_conn_def)

subsection \<open>Notifications and the ring\<close>

lemma length_store_at:
  "pos + length bs \<le> length mem \<Longrightarrow> length (store_at pos bs mem) = length mem"
  by (simp add: store_at_def)

lemma nth_store_at:
  "pos + length bs \<le> length mem \<Longrightarrow> j < length mem \<Longrightarrow>
   store_at pos bs mem ! j =
     (if pos \<le> j \<and> j < pos + length bs then bs ! (j - pos) else mem ! j)"
  by (auto simp: store_at_def nth_append)

text \<open>One chunk: bytes stored at the write cursor, within the chunk, then the cursor moved.\<close>

lemma ring_chunk_written:
  assumes ok: "ring_ok r"
    and chunk: "length bs \<le> WriteChunk r"
    and free: "length bs \<le> BytesFree r"
  shows "ring_contents (ring_Write (length bs) (ring_store bs r)) = ring_contents r @ bs"
    and "ring_ok (ring_Write (length bs) (ring_store bs r))"
    and "BytesFree (ring_Write (length bs) (ring_store bs r)) = BytesFree r - length bs"
    and "BytesAvailable (ring_Write (length bs) (ring_store bs r)) = BytesAvailable r + length bs"
    and "read_cur (ring_Write (length bs) (ring_store bs r)) = read_cur r"
    and "length (ring_data (ring_Write (length bs) (ring_store bs r))) = length (ring_data r)"
proof -
  let ?D = "length (ring_data r)"
  let ?w = "write_cur r"
  let ?rd = "read_cur r"
  let ?n = "length bs"
  let ?r' = "ring_Write (length bs) (ring_store bs r)"
  from ok have w: "?w < ?D" and rd: "?rd < ?D" by (simp_all add: ring_ok_def)
  from chunk w rd have fits: "?w + ?n \<le> ?D"
    by (auto simp: WriteChunk_def split: if_splits)
  have len: "length (ring_data ?r') = ?D"
    using fits by (simp add: ring_Write_def ring_store_def length_store_at)
  have rd': "read_cur ?r' = ?rd"
    by (simp add: ring_Write_def ring_store_def)
  have w': "write_cur ?r' = (if ?w + ?n = ?D then 0 else ?w + ?n)"
    using fits by (simp add: ring_Write_def ring_store_def length_store_at)
  have data': "ring_data ?r' ! j =
      (if ?w \<le> j \<and> j < ?w + ?n then bs ! (j - ?w) else ring_data r ! j)" if "j < ?D" for j
    using fits that by (simp add: ring_Write_def ring_store_def nth_store_at)
  have wrap: "?w + ?n = ?D \<Longrightarrow> 0 < ?rd"
    using free w rd by (auto simp: BytesFree_def split: if_splits)
  have below: "?w < ?rd \<Longrightarrow> ?w + ?n < ?rd"
    using free by (auto simp: BytesFree_def split: if_splits)
  show ok': "ring_ok ?r'"
    using w rd fits wrap by (auto simp: ring_ok_def len rd' w')
  show av: "BytesAvailable ?r' = BytesAvailable r + ?n"
    using w rd fits wrap below by (auto simp: BytesAvailable_def len rd' w')
  show "BytesFree ?r' = BytesFree r - ?n"
    using w rd fits wrap below free by (auto simp: BytesFree_def len rd' w')
  show "read_cur ?r' = ?rd" by (rule rd')
  show "length (ring_data ?r') = ?D" by (rule len)
  show "ring_contents ?r' = ring_contents r @ bs"
  proof (rule nth_equalityI)
    show "length (ring_contents ?r') = length (ring_contents r @ bs)"
      by (simp add: ring_contents_def av)
  next
    fix i assume "i < length (ring_contents ?r')"
    then have i: "i < BytesAvailable r + ?n" by (simp add: ring_contents_def av)
    let ?pos = "(?rd + i) mod ?D"
    have pos: "?pos < ?D" using w by (intro mod_less_divisor) auto
    have lhs: "ring_contents ?r' ! i = ring_data ?r' ! ?pos"
      using i by (simp add: ring_contents_def av len rd')
    show "ring_contents ?r' ! i = (ring_contents r @ bs) ! i"
    proof (cases "i < BytesAvailable r")
      case True
      have "\<not> (?w \<le> ?pos \<and> ?pos < ?w + ?n)"
      proof (cases "?w < ?rd")
        case w_lt: True
        with True have "i < ?D - (?rd - ?w)" by (simp add: BytesAvailable_def)
        show ?thesis
        proof (cases "?rd + i < ?D")
          case True
          then have "?pos = ?rd + i" by simp
          moreover from below [OF w_lt] have "\<not> ?rd + i < ?w + ?n" by arith
          ultimately show ?thesis by simp
        next
          case False
          then have "?pos = ?rd + i - ?D"
            using rd \<open>i < ?D - (?rd - ?w)\<close> by (simp add: mod_if)
          moreover from False \<open>i < ?D - (?rd - ?w)\<close> w_lt rd
          have "?rd + i - ?D < ?w" by arith
          ultimately show ?thesis by simp
        qed
      next
        case False
        with True have "i < ?w - ?rd" by (simp add: BytesAvailable_def)
        with w have "?pos = ?rd + i" by simp
        moreover from \<open>i < ?w - ?rd\<close> have "?rd + i < ?w" by arith
        ultimately show ?thesis by simp
      qed
      with data' [OF pos] have "ring_data ?r' ! ?pos = ring_data r ! ?pos" by simp
      with lhs True show ?thesis
        by (simp add: ring_contents_def nth_append)
    next
      case False
      let ?k = "i - BytesAvailable r"
      from False i have k: "?k < ?n" by simp
      have "?pos = ?w + ?k"
      proof (cases "?w < ?rd")
        case True
        then have av_eq: "BytesAvailable r = ?D - (?rd - ?w)" by (simp add: BytesAvailable_def)
        with False rd True have ge: "?D \<le> ?rd + i" by simp
        from i av_eq fits rd True have "?rd + i < 2 * ?D" by simp
        with ge have "?pos = ?rd + i - ?D" by (simp add: mod_if)
        moreover from av_eq False rd True ge have "?rd + i - ?D = ?w + ?k" by arith
        ultimately show ?thesis by simp
      next
        case no: False
        then have av_eq: "BytesAvailable r = ?w - ?rd" by (simp add: BytesAvailable_def)
        with i fits no have "?rd + i < ?D" by simp
        then have "?pos = ?rd + i" by simp
        moreover from av_eq False no have "?rd + i = ?w + ?k" by arith
        ultimately show ?thesis by simp
      qed
      with data' [OF pos] k have "ring_data ?r' ! ?pos = bs ! ?k" by simp
      with lhs False show ?thesis
        by (simp add: ring_contents_def nth_append)
    qed
  qed
qed

lemma write_chunks_done:
  "n \<le> WriteChunk r \<Longrightarrow> write_chunks n r s = Some (Inr (n, r, s))"
  by (simp add: write_chunks.simps [of n r s] Let_def)

lemma write_chunks_step:
  "WriteChunk r < n \<Longrightarrow> Receive (WriteChunk r) s = Inr (bs, s') \<Longrightarrow>
   write_chunks n r s =
     write_chunks (n - WriteChunk r) (ring_Write (WriteChunk r) (ring_store bs r)) s'"
  by (simp add: write_chunks.simps [of n r s] Let_def)

text \<open>The bytes of a notification that fits, stored in one chunk or in two.\<close>

lemma ring_received:
  assumes ok: "ring_ok r"
    and free: "length payload \<le> BytesFree r"
    and sock: "intact s" "stream s = payload @ rest"
  shows "\<exists>n1 r1 s1 tail s2.
           write_chunks (length payload) r s = Some (Inr (n1, r1, s1)) \<and>
           Receive n1 s1 = Inr (tail, s2) \<and>
           stream s2 = rest \<and> intact s2 \<and> tx s2 = tx s \<and> tx_accept s2 = tx_accept s \<and>
           ring_contents (ring_Write n1 (ring_store tail r1)) = ring_contents r @ payload \<and>
           ring_ok (ring_Write n1 (ring_store tail r1)) \<and>
           read_cur (ring_Write n1 (ring_store tail r1)) = read_cur r \<and>
           BytesAvailable (ring_Write n1 (ring_store tail r1)) =
             BytesAvailable r + length payload \<and>
           length (ring_data (ring_Write n1 (ring_store tail r1))) = length (ring_data r)"
proof (cases "length payload \<le> WriteChunk r")
  case True
  then have wc: "write_chunks (length payload) r s = Some (Inr (length payload, r, s))"
    by (rule write_chunks_done)
  from sock(2) have "length payload \<le> length (stream s)" by simp
  from Receive_Inr [OF sock(1) this] sock(2)
  obtain s2 where rc: "Receive (length payload) s = Inr (payload, s2)"
    and s2: "stream s2 = rest" "intact s2" "tx s2 = tx s" "tx_accept s2 = tx_accept s"
    by auto
  from wc rc s2 ring_chunk_written [OF ok True free] show ?thesis
    by blast
next
  case False
  let ?D = "length (ring_data r)"
  let ?chunk = "WriteChunk r"
  let ?bs1 = "take ?chunk payload"
  let ?bs2 = "drop ?chunk payload"
  from ok have w: "write_cur r < ?D" and rd: "read_cur r < ?D" by (simp_all add: ring_ok_def)
  from False free have nw: "\<not> write_cur r < read_cur r"
    by (auto simp: WriteChunk_def BytesFree_def split: if_splits)
  then have chunk: "?chunk = ?D - write_cur r" by (simp add: WriteChunk_def)
  from nw free False chunk w have rd0: "0 < read_cur r"
    by (auto simp: BytesFree_def)
  from False have l1: "length ?bs1 = ?chunk" by simp
  let ?r1 = "ring_Write ?chunk (ring_store ?bs1 r)"
  from False free have "length ?bs1 \<le> WriteChunk r" "length ?bs1 \<le> BytesFree r"
    by simp_all
  from ring_chunk_written [OF ok this] l1
  have r1: "ring_contents ?r1 = ring_contents r @ ?bs1" "ring_ok ?r1"
    "BytesFree ?r1 = BytesFree r - ?chunk" "BytesAvailable ?r1 = BytesAvailable r + ?chunk"
    "read_cur ?r1 = read_cur r" "length (ring_data ?r1) = ?D"
    by simp_all
  from chunk w have "length (ring_data (ring_store ?bs1 r)) = ?D"
    using l1 by (simp add: ring_store_def length_store_at)
  with chunk w have w1: "write_cur ?r1 = 0"
    by (simp add: ring_Write_def ring_store_def)
  with rd0 r1(5) have "WriteChunk ?r1 = BytesFree ?r1"
    by (simp add: WriteChunk_def BytesFree_def)
  with r1(3) free have fits2: "length ?bs2 \<le> WriteChunk ?r1" "length ?bs2 \<le> BytesFree ?r1"
    by simp_all
  from sock(2) False have "?chunk \<le> length (stream s)" by simp
  from Receive_Inr [OF sock(1) this] sock(2) False
  obtain s1 where rc1: "Receive ?chunk s = Inr (?bs1, s1)"
    and s1: "stream s1 = ?bs2 @ rest" "intact s1" "tx s1 = tx s" "tx_accept s1 = tx_accept s"
    by auto
  from s1(1) have "length ?bs2 \<le> length (stream s1)" by simp
  from Receive_Inr [OF s1(2) this] s1
  obtain s2 where rc2: "Receive (length ?bs2) s1 = Inr (?bs2, s2)"
    and s2: "stream s2 = rest" "intact s2" "tx s2 = tx s" "tx_accept s2 = tx_accept s"
    by auto
  from fits2(1) have "write_chunks (length ?bs2) ?r1 s1 = Some (Inr (length ?bs2, ?r1, s1))"
    by (rule write_chunks_done)
  moreover from False have "WriteChunk r < length payload" by simp
  from write_chunks_step [OF this rc1]
  have "write_chunks (length payload) r s = write_chunks (length ?bs2) ?r1 s1"
    by simp
  ultimately have wc: "write_chunks (length payload) r s = Some (Inr (length ?bs2, ?r1, s1))"
    by simp
  from ring_chunk_written [OF r1(2) fits2] r1 False
  have "ring_contents (ring_Write (length ?bs2) (ring_store ?bs2 ?r1)) = ring_contents r @ payload"
    "ring_ok (ring_Write (length ?bs2) (ring_store ?bs2 ?r1))"
    "read_cur (ring_Write (length ?bs2) (ring_store ?bs2 ?r1)) = read_cur r"
    "BytesAvailable (ring_Write (length ?bs2) (ring_store ?bs2 ?r1)) =
       BytesAvailable r + length payload"
    "length (ring_data (ring_Write (length ?bs2) (ring_store ?bs2 ?r1))) = ?D"
    by simp_all
  with wc rc2 s2 show ?thesis by blast
qed

text \<open>A notification for a dispatcher that exists: dropped when the ring is short, stored otherwise.\<close>

lemma ReceiveNotification_full:
  assumes sock: "intact s0" "stream s0 = payload @ rest"
    and len: "unat (length_hdr h) = length payload"
    and disp: "list_map (dispatcherList c) (targetPort h, sourceAms h) = Some p"
    and full: "BytesFree (ring (dispatchers c ! p)) < length payload"
  shows "\<exists>s' dl'. stream s' = rest \<and> intact s' \<and>
     ReceiveNotification h (c\<lparr>socket := s0\<rparr>) =
       Some (Inr (False, c\<lparr>dispatcherList := dl', socket := s',
                   log := log c @ [Receive_buffer_was_full (targetPort h)]\<rparr>))"
proof -
  let ?vc = "(targetPort h, sourceAms h)"
  let ?dl = "(dispatcherList c)\<lparr>held := held (dispatcherList c),
      trace := trace (dispatcherList c) @ [Lock, Find ?vc (held (dispatcherList c) + 1), Unlock]\<rparr>"
  have get: "Get ?vc (dispatcherList c) = (Some p, ?dl)"
    using disp by (simp add: Get_eq)
  from sock(2) have "length payload \<le> length (stream s0)" by simp
  from ReceiveJunk_Inr [OF sock(1) this] sock(2)
  obtain s' where rj: "ReceiveJunk (length payload) s0 = Inr s'"
    and s': "stream s' = rest" "intact s'"
    by auto
  have "ReceiveNotification h (c\<lparr>socket := s0\<rparr>) =
      Some (Inr (False, c\<lparr>dispatcherList := ?dl, socket := s',
                   log := log c @ [Receive_buffer_was_full (targetPort h)]\<rparr>))"
    using get full rj len by (simp add: ReceiveNotification_def LOG_def Let_def)
  with s' show ?thesis by blast
qed

lemma ReceiveNotification_stored:
  assumes sock: "intact s0" "stream s0 = payload @ rest"
    and len: "unat (length_hdr h) = length payload"
    and disp: "list_map (dispatcherList c) (targetPort h, sourceAms h) = Some p"
    and ok: "ring_ok (ring (dispatchers c ! p))"
    and free: "length payload \<le> BytesFree (ring (dispatchers c ! p))"
  shows "\<exists>s' r' dl'. stream s' = rest \<and> intact s' \<and>
     ReceiveNotification h (c\<lparr>socket := s0\<rparr>) =
       Some (Inr (True, c\<lparr>dispatcherList := dl', socket := s',
                   dispatchers := (dispatchers c)[p := (dispatchers c ! p)
                     \<lparr>ring := r', woken := woken (dispatchers c ! p) + 1\<rparr>]\<rparr>)) \<and>
     ring_contents r' = ring_contents (ring (dispatchers c ! p)) @ payload \<and>
     ring_ok r' \<and> read_cur r' = read_cur (ring (dispatchers c ! p)) \<and>
     BytesAvailable r' = BytesAvailable (ring (dispatchers c ! p)) + length payload \<and>
     length (ring_data r') = length (ring_data (ring (dispatchers c ! p)))"
proof -
  let ?vc = "(targetPort h, sourceAms h)"
  let ?dl = "(dispatcherList c)\<lparr>held := held (dispatcherList c),
      trace := trace (dispatcherList c) @ [Lock, Find ?vc (held (dispatcherList c) + 1), Unlock]\<rparr>"
  let ?ring = "ring (dispatchers c ! p)"
  have get: "Get ?vc (dispatcherList c) = (Some p, ?dl)"
    using disp by (simp add: Get_eq)
  from ring_received [OF ok free sock]
  obtain n1 r1 s1 tail s2 where wc: "write_chunks (length payload) ?ring s0 =
      Some (Inr (n1, r1, s1))"
    and rc: "Receive n1 s1 = Inr (tail, s2)"
    and s2: "stream s2 = rest" "intact s2"
    and r2: "ring_contents (ring_Write n1 (ring_store tail r1)) = ring_contents ?ring @ payload"
      "ring_ok (ring_Write n1 (ring_store tail r1))"
      "read_cur (ring_Write n1 (ring_store tail r1)) = read_cur ?ring"
      "BytesAvailable (ring_Write n1 (ring_store tail r1)) = BytesAvailable ?ring + length payload"
      "length (ring_data (ring_Write n1 (ring_store tail r1))) = length (ring_data ?ring)"
    by blast
  let ?r2 = "ring_Write n1 (ring_store tail r1)"
  from free have nf: "\<not> length payload > BytesFree ?ring" by simp
  have "ReceiveNotification h (c\<lparr>socket := s0\<rparr>) =
      Some (Inr (True, c\<lparr>dispatcherList := ?dl, socket := s2,
                 dispatchers := (dispatchers c)[p := (dispatchers c ! p)
                   \<lparr>ring := ?r2, woken := woken (dispatchers c ! p) + 1\<rparr>]\<rparr>))"
    using get nf wc rc len
    by (simp add: ReceiveNotification_def Dispatcher_Notify_def Let_def)
  with s2 r2 show ?thesis by blast
qed

text \<open>
  C7. A DEVICE_NOTIFICATION frame arrives for which a dispatcher is registered (under the
  frame's target port and source address), and the dispatcher's ring is in order. When
  the length the header gives exceeds the free space of the ring, \<open>ReceiveNotification\<close>
  drains exactly those bytes from the socket, logs that the receive buffer was full and
  returns false: no dispatcher changes (contents and cursors of the ring are as they
  were, and the dispatcher is not notified), and the reader's loop goes on. Otherwise it
  returns true: exactly the payload has been appended to the unread bytes of the ring,
  each chunk stored within the buffer without wrapping, the read cursor and the size of
  the buffer are as before, and the dispatcher has been notified once.
\<close>

theorem notification_received:
  assumes "delivers c tcp aoe payload rest"
    and "h = AoEHeader_of_bytes aoe"
    and "cmdId h = DEVICE_NOTIFICATION"
    and "list_map (dispatcherList c) (targetPort h, sourceAms h) = Some p"
    and "p < length (dispatchers c)"
    and "ring_ok (ring (dispatchers c ! p))"
  shows "\<exists>s2 c'. stream s2 = payload @ rest \<and>
           ReceiveNotification h (c\<lparr>socket := s2\<rparr>) =
             Some (Inr (unat (length_hdr h) \<le> BytesFree (ring (dispatchers c ! p)), c')) \<and>
           Recv_body c = Some (Inr c') \<and> Recv c = Recv c' \<and>
           stream (socket c') = rest \<and> queue c' = queue c \<and>
           length (dispatchers c') = length (dispatchers c) \<and>
           (if BytesFree (ring (dispatchers c ! p)) < unat (length_hdr h)
            then dispatchers c' = dispatchers c \<and>
                 log c' = log c @ [Receive_buffer_was_full (targetPort h)]
            else log c' = log c \<and>
                 dispatchers c' = (dispatchers c)[p := dispatchers c' ! p] \<and>
                 ring_contents (ring (dispatchers c' ! p)) =
                   ring_contents (ring (dispatchers c ! p)) @ payload \<and>
                 BytesAvailable (ring (dispatchers c' ! p)) =
                   BytesAvailable (ring (dispatchers c ! p)) + unat (length_hdr h) \<and>
                 read_cur (ring (dispatchers c' ! p)) = read_cur (ring (dispatchers c ! p)) \<and>
                 length (ring_data (ring (dispatchers c' ! p))) =
                   length (ring_data (ring (dispatchers c ! p))) \<and>
                 ring_ok (ring (dispatchers c' ! p)) \<and>
                 woken (dispatchers c' ! p) = woken (dispatchers c ! p) + 1)"
proof -
  from headers_received [OF assms(1)]
  obtain s1 s2 where r1: "Receive sizeof_AmsTcpHeader (socket c) = Inr (tcp, s1)"
    and r2: "Receive sizeof_AoEHeader s1 = Inr (aoe, s2)"
    and s2: "stream s2 = payload @ rest" "intact s2"
    by blast
  from assms(1,2) have len: "unat (length_hdr h) = length payload"
    and big: "\<not> unat (AmsTcpHeader_length tcp) < sizeof_AoEHeader"
    by (simp_all add: delivers_def)
  let ?c2 = "c\<lparr>socket := s2\<rparr>"
  let ?ring = "ring (dispatchers c ! p)"
  show ?thesis
  proof (cases "BytesFree ?ring < length payload")
    case True
    from ReceiveNotification_full [OF s2(2,1) len assms(4) True]
    obtain s' dl' where s': "stream s' = rest"
      and rn: "ReceiveNotification h ?c2 =
        Some (Inr (False, c\<lparr>dispatcherList := dl', socket := s',
                   log := log c @ [Receive_buffer_was_full (targetPort h)]\<rparr>))"
      by blast
    let ?c' = "c\<lparr>dispatcherList := dl', socket := s',
                   log := log c @ [Receive_buffer_was_full (targetPort h)]\<rparr>"
    from rn True len have rn': "ReceiveNotification h ?c2 =
        Some (Inr (unat (length_hdr h) \<le> BytesFree ?ring, ?c'))"
      by simp
    have step: "Recv_body c = Some (Inr ?c')"
      using r1 r2 big assms(3) rn assms(2) [symmetric]
      by (simp add: Recv_body_def Let_def)
    from s2(1) rn' step Recv_continues [OF step] s' True len show ?thesis
      by (intro exI [of _ s2] exI [of _ ?c']) simp
  next
    case False
    then have free: "length payload \<le> BytesFree ?ring" by simp
    from ReceiveNotification_stored [OF s2(2,1) len assms(4,6) free]
    obtain s' r' dl' where s': "stream s' = rest"
      and rn: "ReceiveNotification h ?c2 =
        Some (Inr (True, c\<lparr>dispatcherList := dl', socket := s',
                   dispatchers := (dispatchers c)[p := (dispatchers c ! p)
                     \<lparr>ring := r', woken := woken (dispatchers c ! p) + 1\<rparr>]\<rparr>))"
      and r': "ring_contents r' = ring_contents ?ring @ payload"
        "ring_ok r'" "read_cur r' = read_cur ?ring"
        "BytesAvailable r' = BytesAvailable ?ring + length payload"
        "length (ring_data r') = length (ring_data ?ring)"
      by blast
    let ?c' = "c\<lparr>dispatcherList := dl', socket := s',
                   dispatchers := (dispatchers c)[p := (dispatchers c ! p)
                     \<lparr>ring := r', woken := woken (dispatchers c ! p) + 1\<rparr>]\<rparr>"
    from rn free len have rn': "ReceiveNotification h ?c2 =
        Some (Inr (unat (length_hdr h) \<le> BytesFree ?ring, ?c'))"
      by simp
    have step: "Recv_body c = Some (Inr ?c')"
      using r1 r2 big assms(3) rn assms(2) [symmetric]
      by (simp add: Recv_body_def Let_def)
    from s2(1) rn' step Recv_continues [OF step] s' r' False len assms(5) show ?thesis
      by (intro exI [of _ s2] exI [of _ ?c']) simp
  qed
qed

lemma overflow_delivers:
  "delivers (subscribed_conn r [example_tcp 96 0 @ example_aoe 0x30 0x75 8 64 0 7 @ replicate 64 0xAA])
     (example_tcp 96 0) (example_aoe 0x30 0x75 8 64 0 7) (replicate 64 0xAA) []"
proof -
  let ?c = "subscribed_conn r [example_tcp 96 0 @ example_aoe 0x30 0x75 8 64 0 7 @ replicate 64 0xAA]"
  have "unat (AmsTcpHeader_length (example_tcp 96 0)) = 96"
    by (simp add: example_tcp_length)
  moreover have "unat (length_hdr (AoEHeader_of_bytes (example_aoe 0x30 0x75 8 64 0 7))) = 64"
    by (simp add: example_aoe_parsed)
  moreover have "length (example_tcp 96 0) = 6" "length (example_aoe 0x30 0x75 8 64 0 7) = 32"
    by (simp_all add: example_tcp_def example_aoe_def)
  moreover have "stream (socket ?c) =
      example_tcp 96 0 @ example_aoe 0x30 0x75 8 64 0 7 @ replicate 64 0xAA @ []"
    by (simp add: subscribed_conn_def stream_def)
  moreover have "intact (socket ?c)"
    by (simp add: subscribed_conn_def intact_def example_tcp_def)
  ultimately show ?thesis
    by (simp add: delivers_def sizeof_AmsTcpHeader_def sizeof_AoEHeader_def)
qed

lemma wrapping_delivers:
  "delivers (subscribed_conn r [example_tcp 36 0 @ example_aoe 0x30 0x75 8 4 0 7 @ [1, 2, 3, 4]])
     (example_tcp 36 0) (example_aoe 0x30 0x75 8 4 0 7) [1, 2, 3, 4] []"
proof -
  let ?c = "subscribed_conn r [example_tcp 36 0 @ example_aoe 0x30 0x75 8 4 0 7 @ [1, 2, 3, 4]]"
  have "unat (AmsTcpHeader_length (example_tcp 36 0)) = 36"
    by (simp add: example_tcp_length)
  moreover have "unat (length_hdr (AoEHeader_of_bytes (example_aoe 0x30 0x75 8 4 0 7))) = 4"
    by (simp add: example_aoe_parsed)
  moreover have "length (example_tcp 36 0) = 6" "length (example_aoe 0x30 0x75 8 4 0 7) = 32"
    by (simp_all add: example_tcp_def example_aoe_def)
  moreover have "stream (socket ?c) =
      example_tcp 36 0 @ example_aoe 0x30 0x75 8 4 0 7 @ [1, 2, 3, 4] @ []"
    by (simp add: subscribed_conn_def stream_def)
  moreover have "intact (socket ?c)"
    by (simp add: subscribed_conn_def intact_def example_tcp_def)
  ultimately show ?thesis
    by (simp add: delivers_def sizeof_AmsTcpHeader_def sizeof_AoEHeader_def)
qed

lemma subscribed_fields:
  "cmdId (AoEHeader_of_bytes (example_aoe 0x30 0x75 8 n 0 7)) = DEVICE_NOTIFICATION"
  "list_map (dispatcherList (subscribed_conn r segs))
     (targetPort (AoEHeader_of_bytes (example_aoe 0x30 0x75 8 n 0 7)),
      sourceAms (AoEHeader_of_bytes (example_aoe 0x30 0x75 8 n 0 7))) = Some 0"
  "0 < length (dispatchers (subscribed_conn r segs))"
  "ring (dispatchers (subscribed_conn r segs) ! 0) = r"
  "woken (dispatchers (subscribed_conn r segs) ! 0) = 0"
  "log (subscribed_conn r segs) = []"
  "dispatchers (subscribed_conn r segs) = [(NotificationDispatcher_new 8 example_dest 30000)\<lparr>ring := r\<rparr>]"
  by (simp_all add: example_aoe_parsed DEVICE_NOTIFICATION_def subscribed_conn_def fresh_conn_def
      sourceAms_def example_vc_def example_dest_def NotificationDispatcher_new_def)

lemma used_ring_facts:
  "ring_ok used_ring" "BytesFree used_ring = 5" "ring_contents used_ring = [10, 11, 12]"
  "WriteChunk used_ring = 3"
  by (simp_all add: used_ring_def ring_ok_def BytesFree_def ring_contents_def BytesAvailable_def
      WriteChunk_def upt_rec)

lemma new_ring_facts:
  "ring_ok (RingBuffer_new 8)" "BytesFree (RingBuffer_new 8) = 8"
  by (simp_all add: RingBuffer_new_def ring_ok_def BytesFree_def)

theorem notification_received_witness:
  "delivers (subscribed_conn (RingBuffer_new 8)
       [example_tcp 96 0 @ example_aoe 0x30 0x75 8 64 0 7 @ replicate 64 0xAA])
     (example_tcp 96 0) (example_aoe 0x30 0x75 8 64 0 7) (replicate 64 0xAA) [] \<and>
   BytesFree (RingBuffer_new 8) = 8 \<and>
   (\<exists>c'. Recv_body (subscribed_conn (RingBuffer_new 8)
       [example_tcp 96 0 @ example_aoe 0x30 0x75 8 64 0 7 @ replicate 64 0xAA]) = Some (Inr c') \<and>
      stream (socket c') = [] \<and>
      dispatchers c' = [(NotificationDispatcher_new 8 example_dest 30000)\<lparr>ring := RingBuffer_new 8\<rparr>] \<and>
      log c' = [Receive_buffer_was_full 30000]) \<and>
   delivers (subscribed_conn used_ring
       [example_tcp 36 0 @ example_aoe 0x30 0x75 8 4 0 7 @ [1, 2, 3, 4]])
     (example_tcp 36 0) (example_aoe 0x30 0x75 8 4 0 7) [1, 2, 3, 4] [] \<and>
   BytesFree used_ring = 5 \<and> WriteChunk used_ring = 3 \<and>
   (\<exists>c'. Recv_body (subscribed_conn used_ring
       [example_tcp 36 0 @ example_aoe 0x30 0x75 8 4 0 7 @ [1, 2, 3, 4]]) = Some (Inr c') \<and>
      stream (socket c') = [] \<and>
      ring_contents (ring (dispatchers c' ! 0)) = [10, 11, 12, 1, 2, 3, 4] \<and>
      woken (dispatchers c' ! 0) = 1 \<and> log c' = [])"
proof -
  have d1: "delivers (subscribed_conn (RingBuffer_new 8)
       [example_tcp 96 0 @ example_aoe 0x30 0x75 8 64 0 7 @ replicate 64 0xAA])
     (example_tcp 96 0) (example_aoe 0x30 0x75 8 64 0 7) (replicate 64 0xAA) []"
    by (rule overflow_delivers)
  have d2: "delivers (subscribed_conn used_ring
       [example_tcp 36 0 @ example_aoe 0x30 0x75 8 4 0 7 @ [1, 2, 3, 4]])
     (example_tcp 36 0) (example_aoe 0x30 0x75 8 4 0 7) [1, 2, 3, 4] []"
    by (rule wrapping_delivers)
  have l1: "unat (length_hdr (AoEHeader_of_bytes (example_aoe 0x30 0x75 8 64 0 7))) = 64"
    and l2: "unat (length_hdr (AoEHeader_of_bytes (example_aoe 0x30 0x75 8 4 0 7))) = 4"
    and tp: "targetPort (AoEHeader_of_bytes (example_aoe 0x30 0x75 8 64 0 7)) = 30000"
    by (simp_all add: example_aoe_parsed)
  from notification_received [OF d1 refl subscribed_fields(1,2,3)] new_ring_facts l1 tp
  have "\<exists>c'. Recv_body (subscribed_conn (RingBuffer_new 8)
       [example_tcp 96 0 @ example_aoe 0x30 0x75 8 64 0 7 @ replicate 64 0xAA]) = Some (Inr c') \<and>
      stream (socket c') = [] \<and>
      dispatchers c' = [(NotificationDispatcher_new 8 example_dest 30000)\<lparr>ring := RingBuffer_new 8\<rparr>] \<and>
      log c' = [Receive_buffer_was_full 30000]"
    by (simp add: subscribed_fields) blast
  moreover
  from notification_received [OF d2 refl subscribed_fields(1,2,3)] used_ring_facts l2
  have "\<exists>c'. Recv_body (subscribed_conn used_ring
       [example_tcp 36 0 @ example_aoe 0x30 0x75 8 4 0 7 @ [1, 2, 3, 4]]) = Some (Inr c') \<and>
      stream (socket c') = [] \<and>
      ring_contents (ring (dispatchers c' ! 0)) = [10, 11, 12, 1, 2, 3, 4] \<and>
      woken (dispatchers c' ! 0) = 1 \<and> log c' = []"
    by (simp add: subscribed_fields NotificationDispatcher_new_def) blast
  ultimately show ?thesis
    using d1 d2 new_ring_facts(2) used_ring_facts(2,4) by blast
qed

subsection \<open>The slot of a received header\<close>

lemma Recv_body_out_of_bounds:
  assumes d: "delivers c tcp aoe payload rest"
    and h: "h = AoEHeader_of_bytes aoe"
    and cmd: "cmdId h \<noteq> DEVICE_NOTIFICATION"
    and idx: "slot_index (targetPort h) c = None"
  shows "Recv_body c = Some (Inl OutOfBounds)"
proof -
  from headers_received [OF d]
  obtain s1 s2 where r1: "Receive sizeof_AmsTcpHeader (socket c) = Inr (tcp, s1)"
    and r2: "Receive sizeof_AoEHeader s1 = Inr (aoe, s2)"
    by blast
  from d have big: "\<not> unat (AmsTcpHeader_length tcp) < sizeof_AoEHeader"
    by (simp add: delivers_def)
  have "GetPending (invokeId_hdr h) (targetPort h) (c\<lparr>socket := s2\<rparr>) = Inl OutOfBounds"
    using idx by (simp add: GetPending_def)
  with r1 r2 big cmd h [symmetric] show ?thesis
    by (simp add: Recv_body_def Let_def)
qed

lemma stray_delivers:
  "delivers (waiting_conn [example_tcp 36 0 @ example_aoe 0 0 4 4 0 1 @ [1, 0, 0, 0]])
     (example_tcp 36 0) (example_aoe 0 0 4 4 0 1) [1, 0, 0, 0] []"
proof -
  have "unat (AmsTcpHeader_length (example_tcp 36 0)) = 36"
    by (simp add: example_tcp_length)
  moreover have "unat (length_hdr (AoEHeader_of_bytes (example_aoe 0 0 4 4 0 1))) = 4"
    by (simp add: example_aoe_parsed)
  moreover have "length (example_tcp 36 0) = 6" "length (example_aoe 0 0 4 4 0 1) = 32"
    by (simp_all add: example_tcp_def example_aoe_def)
  moreover have "stream (socket (waiting_conn [example_tcp 36 0 @ example_aoe 0 0 4 4 0 1 @ [1, 0, 0, 0]])) =
      example_tcp 36 0 @ example_aoe 0 0 4 4 0 1 @ [1, 0, 0, 0] @ []"
    by (simp add: waiting_conn_def stream_def)
  moreover have "intact (socket (waiting_conn [example_tcp 36 0 @ example_aoe 0 0 4 4 0 1 @ [1, 0, 0, 0]]))"
    by (simp add: waiting_conn_def intact_def example_tcp_def)
  ultimately show ?thesis
    by (simp add: delivers_def sizeof_AmsTcpHeader_def sizeof_AoEHeader_def)
qed

text \<open>
  C5 does not hold of the code: \<open>GetPending\<close> indexes the slot array with
  \<^verbatim>\<open>port - Router::PORT_BASE\<close> for whatever target port the received header carries. On a
  connection with 128 slots from port 30000 on, a READ_STATE reply whose target port is 0
  (or 30128) makes the reader index outside the array.
\<close>

theorem GetPending_out_of_bounds:
  "delivers (waiting_conn [example_tcp 36 0 @ example_aoe 0 0 4 4 0 1 @ [1, 0, 0, 0]])
     (example_tcp 36 0) (example_aoe 0 0 4 4 0 1) [1, 0, 0, 0] [] \<and>
   cmdId (AoEHeader_of_bytes (example_aoe 0 0 4 4 0 1)) = READ_STATE \<and>
   targetPort (AoEHeader_of_bytes (example_aoe 0 0 4 4 0 1)) = 0 \<and>
   PORT_BASE (declared (waiting_conn [])) = 30000 \<and>
   length (queue (waiting_conn [])) = 128 \<and>
   slot_index 0 (waiting_conn []) = None \<and>
   slot_index 30128 (waiting_conn []) = None \<and>
   GetPending 1 0 (waiting_conn []) = Inl OutOfBounds \<and>
   Recv_body (waiting_conn [example_tcp 36 0 @ example_aoe 0 0 4 4 0 1 @ [1, 0, 0, 0]]) =
     Some (Inl OutOfBounds)"
proof -
  let ?h = "AoEHeader_of_bytes (example_aoe 0 0 4 4 0 1)"
  have cmd: "cmdId ?h = READ_STATE" and tp: "targetPort ?h = 0"
    by (simp_all add: example_aoe_parsed READ_STATE_def)
  have none: "slot_index 0 (waiting_conn segs) = None"
    "slot_index 30128 (waiting_conn segs) = None" for segs
    by (simp_all add: slot_index_def waiting_conn_def fresh_conn_def example_declared_def)
  have notif: "cmdId ?h \<noteq> DEVICE_NOTIFICATION"
    by (simp add: cmd READ_STATE_def DEVICE_NOTIFICATION_def)
  from Recv_body_out_of_bounds [OF stray_delivers refl notif] none(1) tp
  have "Recv_body (waiting_conn [example_tcp 36 0 @ example_aoe 0 0 4 4 0 1 @ [1, 0, 0, 0]]) =
     Some (Inl OutOfBounds)"
    by simp
  with stray_delivers cmd tp none show ?thesis
    by (simp add: GetPending_def) (simp add: waiting_conn_def fresh_conn_def example_declared_def)
qed

end
